theory Spec2Isabelle
  imports Main "HOL-Library.AList"
begin

section \<open>Python values used by the client\<close>

text \<open>
  Exceptions are values. \<open>AuthorizationError\<close> and \<open>LetsEncryptClientError\<close> are the
  two classes of \<open>letsencrypt.errors\<close> the sources raise; the others are the built-in
  exceptions of the list and dictionary operations the sources use. \<open>OtherError\<close> stands
  for whatever else an authenticator or the network may raise.
\<close>

datatype error =
    AuthorizationError string
  | LetsEncryptClientError string
  | IndexError
  | KeyError
  | ValueError
  | AssertionError
  | IOError
  | OtherError string

fun is_AuthorizationError :: "error \<Rightarrow> bool" where
  "is_AuthorizationError (AuthorizationError m) = True"
| "is_AuthorizationError e = False"

text \<open>
  \<open>xs[i]\<close> on a list of length \<open>n\<close>: the indices \<open>-n \<le> i < n\<close> are in range, a
  negative one counting from the end; any other index raises \<open>IndexError\<close>.
\<close>

definition in_range :: "nat \<Rightarrow> int \<Rightarrow> bool" where
  "in_range n i = (- int n \<le> i \<and> i < int n)"

definition norm_index :: "nat \<Rightarrow> int \<Rightarrow> nat" where
  "norm_index n i = nat (if i < 0 then int n + i else i)"

definition py_index :: "'a list \<Rightarrow> int \<Rightarrow> error + 'a" where
  "py_index xs i =
     (if in_range (length xs) i then Inr (xs ! norm_index (length xs) i)
      else Inl IndexError)"

text \<open>\<open>xs.remove(x)\<close>: drops the first element equal to \<open>x\<close>, raises when there is none.\<close>

definition py_remove :: "'a \<Rightarrow> 'a list \<Rightarrow> error + 'a list" where
  "py_remove x xs = (if x \<in> set xs then Inr (remove1 x xs) else Inl ValueError)"

text \<open>\<open>d[k]\<close> on a dictionary kept as an association list in insertion order.\<close>

definition py_getitem :: "('k \<times> 'v) list \<Rightarrow> 'k \<Rightarrow> error + 'v" where
  "py_getitem d k = (case map_of d k of None \<Rightarrow> Inl KeyError | Some v \<Rightarrow> Inr v)"

section \<open>Messages\<close>

text \<open>
  Modelled from the spec: the challenge classes of \<open>acme.challenges\<close> and the status
  constants of \<open>acme.messages\<close> are not among the sources. The spec lists the variants
  \<open>DVSNI\<close>, \<open>SimpleHTTP\<close>, \<open>DNS\<close> (the DV family) and \<open>RecoveryToken\<close>,
  \<open>RecoveryContact\<close>, \<open>ProofOfPossession\<close> (the continuity family), and the statuses
  pending, processing, valid, invalid, revoked, unknown. \<open>UnsupportedChallenge\<close> is any
  other class, the one \<open>challb_to_achall\<close> rejects. A \<open>chall_typ\<close> is the class of a
  challenge object; a \<open>chall_cls\<close> is a class as it occurs in a preference list or an
  exclusive group, which may also be one of the two families.
\<close>

datatype chall_typ =
  DVSNI | SimpleHTTP | DNS | RecoveryToken | RecoveryContact | ProofOfPossession
  | UnsupportedChallenge

datatype chall_cls = Leaf chall_typ | DVChallenge | ContinuityChallenge

fun isinstance :: "chall_typ \<Rightarrow> chall_cls \<Rightarrow> bool" where
  "isinstance t (Leaf t') = (t = t')"
| "isinstance t DVChallenge = (t = DVSNI \<or> t = SimpleHTTP \<or> t = DNS)"
| "isinstance t ContinuityChallenge =
     (t = RecoveryToken \<or> t = RecoveryContact \<or> t = ProofOfPossession)"

datatype status =
  STATUS_UNKNOWN | STATUS_PENDING | STATUS_PROCESSING | STATUS_VALID | STATUS_INVALID
  | STATUS_REVOKED

record challenge =
  cls :: chall_typ
  token :: string

record challb =
  chall :: challenge
  cb_uri :: string
  cb_status :: status

record authorization =
  az_identifier :: string
  challenges :: "challb list"
  combinations :: "int list list option"
  az_status :: status

record authzr =
  body :: authorization
  az_uri :: string
  new_cert_uri :: string

section \<open>Path planner\<close>

subsection \<open>Smart path\<close>

text \<open>
  The first loop of \<open>_find_smart_path\<close>: \<open>chall_cost[chall_cls] = i\<close> and
  \<open>max_cost += i\<close> over \<open>enumerate(preferences)\<close>. A later assignment to the same class
  overwrites an earlier one.
\<close>

fun chall_cost_loop ::
  "nat \<Rightarrow> chall_cls list \<Rightarrow> (chall_cls \<rightharpoonup> nat) \<times> nat \<Rightarrow> (chall_cls \<rightharpoonup> nat) \<times> nat" where
  "chall_cost_loop i [] acc = acc"
| "chall_cost_loop i (c # cs) (chall_cost, max_cost) =
     chall_cost_loop (Suc i) cs (chall_cost(c \<mapsto> i), max_cost + i)"

text \<open>
  The inner loop: \<open>combo_total += chall_cost.get(challbs[challenge_index].chall.__class__,
  max_cost)\<close>. The index is used as it comes.
\<close>

fun combo_loop ::
  "challb list \<Rightarrow> (chall_cls \<rightharpoonup> nat) \<Rightarrow> nat \<Rightarrow> int list \<Rightarrow> nat \<Rightarrow> error + nat" where
  "combo_loop challbs chall_cost max_cost [] combo_total = Inr combo_total"
| "combo_loop challbs chall_cost max_cost (challenge_index # rest) combo_total =
     (case py_index challbs challenge_index of
        Inl e \<Rightarrow> Inl e
      | Inr cb \<Rightarrow>
          combo_loop challbs chall_cost max_cost rest
            (combo_total +
               (case chall_cost (Leaf (cls (chall cb))) of
                  None \<Rightarrow> max_cost
                | Some c \<Rightarrow> c)))"

text \<open>The outer loop over \<open>combinations\<close>, carrying \<open>best_combo\<close> and \<open>best_combo_cost\<close>.\<close>

fun best_loop ::
  "challb list \<Rightarrow> (chall_cls \<rightharpoonup> nat) \<Rightarrow> nat \<Rightarrow> int list list \<Rightarrow> int list \<times> nat
     \<Rightarrow> error + (int list \<times> nat)" where
  "best_loop challbs chall_cost max_cost [] best = Inr best"
| "best_loop challbs chall_cost max_cost (combo # rest) (best_combo, best_combo_cost) =
     (case combo_loop challbs chall_cost max_cost combo 0 of
        Inl e \<Rightarrow> Inl e
      | Inr combo_total \<Rightarrow>
          if combo_total < best_combo_cost
          then best_loop challbs chall_cost max_cost rest (combo, combo_total)
          else best_loop challbs chall_cost max_cost rest (best_combo, best_combo_cost))"

definition no_combination_msg :: string where
  "no_combination_msg =
     ''Client does not support any combination of challenges that will satisfy the CA.''"

definition find_smart_path ::
  "challb list \<Rightarrow> chall_cls list \<Rightarrow> int list list \<Rightarrow> error + int list" where
  "find_smart_path challbs preferences combos =
     (case chall_cost_loop 0 preferences (Map.empty, 1) of
        (chall_cost, max_cost) \<Rightarrow>
          (case best_loop challbs chall_cost max_cost combos ([], max_cost) of
             Inl e \<Rightarrow> Inl e
           | Inr (best_combo, best_combo_cost) \<Rightarrow>
               if best_combo = [] then Inl (AuthorizationError no_combination_msg)
               else Inr best_combo))"

subsection \<open>Dumb path\<close>

text \<open>
  \<open>mutually_exclusive\<close>: the scan of one group, with the two presence flags. It yields
  \<open>True\<close> where the source leaves by \<open>return False\<close>.
\<close>

fun group_loop ::
  "chall_typ \<Rightarrow> chall_typ \<Rightarrow> bool \<Rightarrow> chall_cls list \<Rightarrow> bool \<Rightarrow> bool \<Rightarrow> bool" where
  "group_loop obj1 obj2 different [] obj1_present obj2_present = False"
| "group_loop obj1 obj2 different (obj_cls # rest) obj1_present obj2_present =
     (let p1 = (obj1_present \<or> isinstance obj1 obj_cls);
          p2 = (obj2_present \<or> isinstance obj2 obj_cls)
      in if p1 \<and> p2 \<and> (\<not> different \<or> \<not> isinstance obj1 (Leaf obj2)) then True
         else group_loop obj1 obj2 different rest p1 p2)"

fun mutually_exclusive ::
  "challenge \<Rightarrow> challenge \<Rightarrow> chall_cls list list \<Rightarrow> bool \<Rightarrow> bool" where
  "mutually_exclusive obj1 obj2 [] different = True"
| "mutually_exclusive obj1 obj2 (grp # groups) different =
     (if group_loop (cls obj1) (cls obj2) different grp False False then False
      else mutually_exclusive obj1 obj2 groups different)"

fun is_preferred :: "challb \<Rightarrow> challb list \<Rightarrow> chall_cls list list \<Rightarrow> bool" where
  "is_preferred offered_challb [] exclusive_groups = True"
| "is_preferred offered_challb (cb # satisfied) exclusive_groups =
     (if \<not> mutually_exclusive (chall offered_challb) (chall cb) exclusive_groups True
      then False
      else is_preferred offered_challb satisfied exclusive_groups)"

text \<open>
  The two loops of \<open>_find_dumb_path\<close>. \<open>satisfied\<close> is a set in the source; it is only
  ever scanned by \<open>is_preferred\<close>, whose answer does not depend on the order.
\<close>

fun dumb_inner ::
  "chall_cls list list \<Rightarrow> chall_cls \<Rightarrow> (nat \<times> challb) list \<Rightarrow> nat list \<times> challb list
     \<Rightarrow> nat list \<times> challb list" where
  "dumb_inner groups pref_c [] acc = acc"
| "dumb_inner groups pref_c ((i, offered_challb) # rest) (path, satisfied) =
     (if isinstance (cls (chall offered_challb)) pref_c
         \<and> is_preferred offered_challb satisfied groups
      then dumb_inner groups pref_c rest (path @ [i], List.insert offered_challb satisfied)
      else dumb_inner groups pref_c rest (path, satisfied))"

fun dumb_outer ::
  "chall_cls list list \<Rightarrow> challb list \<Rightarrow> chall_cls list \<Rightarrow> nat list \<times> challb list
     \<Rightarrow> nat list \<times> challb list" where
  "dumb_outer groups challbs [] acc = acc"
| "dumb_outer groups challbs (pref_c # rest) acc =
     dumb_outer groups challbs rest (dumb_inner groups pref_c (enumerate 0 challbs) acc)"

text \<open>
  \<open>constants.EXCLUSIVE_CHALLENGES\<close> is not among the sources: the exclusive groups are a
  parameter.
\<close>

definition find_dumb_path ::
  "chall_cls list list \<Rightarrow> challb list \<Rightarrow> chall_cls list \<Rightarrow> error + int list" where
  "find_dumb_path groups challbs preferences =
     (if length preferences \<noteq> length (remdups preferences) then Inl AssertionError
      else Inr (map int (fst (dumb_outer groups challbs preferences ([], [])))))"

definition gen_challenge_path ::
  "chall_cls list list \<Rightarrow> challb list \<Rightarrow> chall_cls list \<Rightarrow> int list list option
     \<Rightarrow> error + int list" where
  "gen_challenge_path groups challbs preferences combos =
     (case combos of
        None \<Rightarrow> find_dumb_path groups challbs preferences
      | Some cs \<Rightarrow>
          if cs \<noteq> [] then find_smart_path challbs preferences cs
          else find_dumb_path groups challbs preferences)"

subsection \<open>The planner as the specification words it\<close>

text \<open>
  The specification's costs: each preference has its 0-based rank, \<open>max_cost\<close> is the sum
  of all ranks plus one, a challenge costs the rank of its variant or \<open>max_cost\<close> when
  the variant is not preferred, and a combination costs the sum over its challenges. The
  rank of a class is its position in the preference list; for a list that names a class
  twice (which the specification does not consider) it is taken to be the last position.
\<close>

definition spec_max_cost :: "chall_cls list \<Rightarrow> nat" where
  "spec_max_cost preferences = sum_list [0..<length preferences] + 1"

definition spec_rank :: "chall_cls list \<Rightarrow> chall_cls \<Rightarrow> nat" where
  "spec_rank preferences c =
     length preferences - 1 - length (takeWhile (\<lambda>x. x \<noteq> c) (rev preferences))"

definition spec_chall_cost :: "chall_cls list \<Rightarrow> challb \<Rightarrow> nat" where
  "spec_chall_cost preferences cb =
     (if Leaf (cls (chall cb)) \<in> set preferences
      then spec_rank preferences (Leaf (cls (chall cb)))
      else spec_max_cost preferences)"

definition spec_combo_cost :: "challb list \<Rightarrow> chall_cls list \<Rightarrow> int list \<Rightarrow> nat" where
  "spec_combo_cost challbs preferences combo =
     sum_list (map (\<lambda>i. spec_chall_cost preferences (challbs ! norm_index (length challbs) i)) combo)"

text \<open>
  The specification's choice: no combination when none costs less than \<open>max_cost\<close>,
  otherwise the first combination, in the order given, that no other one undercuts.
\<close>

definition first_least :: "('a \<Rightarrow> nat) \<Rightarrow> 'a list \<Rightarrow> 'a option" where
  "first_least f xs = find (\<lambda>x. list_all (\<lambda>y. f x \<le> f y) xs) xs"

definition spec_best :: "challb list \<Rightarrow> chall_cls list \<Rightarrow> int list list \<Rightarrow> int list option" where
  "spec_best challbs preferences combos =
     (if list_all (\<lambda>c. spec_max_cost preferences \<le> spec_combo_cost challbs preferences c) combos
      then None
      else first_least (spec_combo_cost challbs preferences) combos)"

text \<open>
  The specification's mutual exclusion of two challenges: both belong to a common
  exclusive group and they are of different variants.
\<close>

definition in_group :: "chall_typ \<Rightarrow> chall_cls list \<Rightarrow> bool" where
  "in_group t g = (\<exists>c\<in>set g. isinstance t c)"

definition spec_mutually_exclusive :: "chall_cls list list \<Rightarrow> challenge \<Rightarrow> challenge \<Rightarrow> bool" where
  "spec_mutually_exclusive groups a b =
     ((\<exists>g\<in>set groups. in_group (cls a) g \<and> in_group (cls b) g) \<and> cls a \<noteq> cls b)"

text \<open>A sample challenge body of a given variant.\<close>

definition mk_challb :: "chall_typ \<Rightarrow> challb" where
  "mk_challb t = \<lparr>chall = \<lparr>cls = t, token = ''T''\<rparr>, cb_uri = ''u'', cb_status = STATUS_PENDING\<rparr>"

text \<open>
  The invariant of the loops of \<open>_find_dumb_path\<close>: every index chosen so far points at a
  challenge in \<open>satisfied\<close>, and no two challenges in \<open>satisfied\<close> exclude each other.
\<close>

definition dumb_inv :: "chall_cls list list \<Rightarrow> challb list \<Rightarrow> nat list \<times> challb list \<Rightarrow> bool" where
  "dumb_inv groups challbs acc =
     ((\<forall>i\<in>set (fst acc). i < length challbs \<and> challbs ! i \<in> set (snd acc))
      \<and> (\<forall>x\<in>set (snd acc). \<forall>y\<in>set (snd acc).
            \<not> spec_mutually_exclusive groups (chall x) (chall y)))"


section \<open>Accounts\<close>

text \<open>\<open>le_util.Key\<close> is a pair of the key file's path and its PEM text.\<close>

record le_key =
  key_file :: string
  key_pem :: string

text \<open>
  Modelled from the spec: \<open>Registration\<close> and \<open>RegistrationResource\<close> of
  \<open>acme.messages\<close> are not among the sources. A registration has a key, ordered
  contacts, a recovery token and an agreement; a registration resource carries the
  registration body and three URIs, of which \<open>terms_of_service\<close> may be \<open>None\<close>
  (\<open>Client.register\<close> tests for it).
\<close>

record registration =
  reg_key :: "string option"
  contact :: "string list"
  recovery_token :: "string option"
  agreement :: "string option"

record registration_resource =
  rr_body :: registration
  rr_uri :: string
  rr_new_authzr_uri :: string
  rr_terms_of_service :: "string option"

record account =
  key :: le_key
  email :: "string option"
  phone :: "string option"
  regr :: "registration_resource option"

definition new_authzr_uri :: "account \<Rightarrow> string option" where
  "new_authzr_uri a = (case regr a of None \<Rightarrow> None | Some r \<Rightarrow> Some (rr_new_authzr_uri r))"

section \<open>Authorization handler\<close>

text \<open>
  An annotated challenge pairs a challenge body with its domain and, for \<open>DVSNI\<close> and
  \<open>SimpleHTTP\<close>, the account key. Annotated challenges compare by value.
\<close>

record achall =
  challb :: challb
  domain :: string
  akey :: "le_key option"

text \<open>
  The handler's fields. \<open>authzr\<close> is the dictionary from domains to authorization
  resources, kept in insertion order. \<open>world\<close> is the state of everything outside the
  handler (server, authenticators); \<open>sleep_log\<close> records the calls of \<open>time.sleep\<close>.
\<close>

record 'w handler =
  authzr :: "(string \<times> authzr) list"
  dv_c :: "achall list"
  cont_c :: "achall list"
  account :: account
  world :: 'w
  sleep_log :: "int list"

text \<open>
  The network and the two authenticators are not part of the handler: they are
  functions on the world, each of which may raise. A response of an authenticator is
  \<open>None\<close> when it is falsy. \<open>exclusive_groups\<close> stands for
  \<open>constants.EXCLUSIVE_CHALLENGES\<close>.
\<close>

record 'w env =
  request_domain_challenges :: "string \<Rightarrow> string option \<Rightarrow> 'w \<Rightarrow> (error + authzr) \<times> 'w"
  answer_challenge :: "challb \<Rightarrow> string \<Rightarrow> 'w \<Rightarrow> (error + unit) \<times> 'w"
  poll :: "authzr \<Rightarrow> 'w \<Rightarrow> (error + authzr) \<times> 'w"
  cont_get_chall_pref :: "string \<Rightarrow> chall_cls list"
  dv_get_chall_pref :: "string \<Rightarrow> chall_cls list"
  cont_perform :: "achall list \<Rightarrow> 'w \<Rightarrow> (error + string option list) \<times> 'w"
  dv_perform :: "achall list \<Rightarrow> 'w \<Rightarrow> (error + string option list) \<times> 'w"
  cont_cleanup :: "achall list \<Rightarrow> 'w \<Rightarrow> (error + unit) \<times> 'w"
  dv_cleanup :: "achall list \<Rightarrow> 'w \<Rightarrow> (error + unit) \<times> 'w"
  exclusive_groups :: "chall_cls list list"

definition init_handler :: "account \<Rightarrow> 'w \<Rightarrow> 'w handler" where
  "init_handler acc w =
     \<lparr>authzr = [], dv_c = [], cont_c = [], account = acc, world = w, sleep_log = []\<rparr>"

subsection \<open>Choosing challenges\<close>

definition unsupported_msg :: string where
  "unsupported_msg = ''Received unsupported challenge of type: %s''"

definition challb_to_achall :: "challb \<Rightarrow> le_key \<Rightarrow> string \<Rightarrow> error + achall" where
  "challb_to_achall cb k dmn =
     (case cls (chall cb) of
        DVSNI \<Rightarrow> Inr \<lparr>challb = cb, domain = dmn, akey = Some k\<rparr>
      | SimpleHTTP \<Rightarrow> Inr \<lparr>challb = cb, domain = dmn, akey = Some k\<rparr>
      | DNS \<Rightarrow> Inr \<lparr>challb = cb, domain = dmn, akey = None\<rparr>
      | RecoveryToken \<Rightarrow> Inr \<lparr>challb = cb, domain = dmn, akey = None\<rparr>
      | RecoveryContact \<Rightarrow> Inr \<lparr>challb = cb, domain = dmn, akey = None\<rparr>
      | ProofOfPossession \<Rightarrow> Inr \<lparr>challb = cb, domain = dmn, akey = None\<rparr>
      | UnsupportedChallenge \<Rightarrow> Inl (LetsEncryptClientError unsupported_msg))"

definition get_chall_pref :: "'w env \<Rightarrow> string \<Rightarrow> chall_cls list" where
  "get_chall_pref env dmn = cont_get_chall_pref env dmn @ dv_get_chall_pref env dmn"

text \<open>The loop of \<open>_challenge_factory\<close>, carrying \<open>(cont_chall, dv_chall)\<close>.\<close>

fun challenge_factory_loop ::
  "(string \<times> authzr) list \<Rightarrow> le_key \<Rightarrow> string \<Rightarrow> int list \<Rightarrow> achall list \<times> achall list
     \<Rightarrow> error + (achall list \<times> achall list)" where
  "challenge_factory_loop az k dmn [] acc = Inr acc"
| "challenge_factory_loop az k dmn (index # rest) (cont_chall, dv_chall) =
     (case py_getitem az dmn of
        Inl e \<Rightarrow> Inl e
      | Inr a \<Rightarrow>
          (case py_index (challenges (body a)) index of
             Inl e \<Rightarrow> Inl e
           | Inr cb \<Rightarrow>
               (case challb_to_achall cb k dmn of
                  Inl e \<Rightarrow> Inl e
                | Inr ac \<Rightarrow>
                    if isinstance (cls (chall cb)) ContinuityChallenge
                    then challenge_factory_loop az k dmn rest (cont_chall @ [ac], dv_chall)
                    else if isinstance (cls (chall cb)) DVChallenge
                    then challenge_factory_loop az k dmn rest (cont_chall, dv_chall @ [ac])
                    else challenge_factory_loop az k dmn rest (cont_chall, dv_chall))))"

definition challenge_factory ::
  "'w handler \<Rightarrow> string \<Rightarrow> int list \<Rightarrow> error + (achall list \<times> achall list)" where
  "challenge_factory h dmn path =
     challenge_factory_loop (authzr h) (key (account h)) dmn path ([], [])"

fun choose_challenges ::
  "'w env \<Rightarrow> string list \<Rightarrow> 'w handler \<Rightarrow> (error + unit) \<times> 'w handler" where
  "choose_challenges env [] h = (Inr (), h)"
| "choose_challenges env (dmn # rest) h =
     (case py_getitem (authzr h) dmn of
        Inl e \<Rightarrow> (Inl e, h)
      | Inr a \<Rightarrow>
          (case gen_challenge_path (exclusive_groups env) (challenges (body a))
                  (get_chall_pref env dmn) (combinations (body a)) of
             Inl e \<Rightarrow> (Inl e, h)
           | Inr path \<Rightarrow>
               (case challenge_factory h dmn path of
                  Inl e \<Rightarrow> (Inl e, h)
                | Inr (dom_cont_c, dom_dv_c) \<Rightarrow>
                    choose_challenges env rest
                      (h\<lparr>dv_c := dv_c h @ dom_dv_c, cont_c := cont_c h @ dom_cont_c\<rparr>))))"

subsection \<open>Cleanup\<close>

text \<open>
  \<open>for achall in dv_c: self.dv_c.remove(achall)\<close> where \<open>dv_c\<close> is \<open>self.dv_c\<close> itself
  (the case \<open>achall_list is None\<close>): the list iterator holds a position into the list
  that the body shortens. It stops when the position reaches the current length.
\<close>

function remove_iterating :: "nat \<Rightarrow> 'a list \<Rightarrow> 'a list" where
  "remove_iterating i xs =
     (if i < length xs then remove_iterating (Suc i) (remove1 (xs ! i) xs) else xs)"
  by pat_completeness auto
termination
  by (relation "measure (\<lambda>(i, xs). length xs - i)") (auto simp: length_remove1)

text \<open>The same loop over a list of its own; what was removed before a failure stays removed.\<close>

fun remove_each :: "'a list \<Rightarrow> 'a list \<Rightarrow> (error + unit) \<times> 'a list" where
  "remove_each [] xs = (Inr (), xs)"
| "remove_each (y # ys) xs =
     (case py_remove y xs of
        Inl e \<Rightarrow> (Inl e, xs)
      | Inr xs' \<Rightarrow> remove_each ys xs')"

definition cleanup_dv ::
  "'w env \<Rightarrow> bool \<Rightarrow> achall list \<Rightarrow> 'w handler \<Rightarrow> (error + unit) \<times> 'w handler" where
  "cleanup_dv env aliased dv h =
     (if dv \<noteq> [] then
        (case dv_cleanup env dv (world h) of
           (Inl e, w) \<Rightarrow> (Inl e, h\<lparr>world := w\<rparr>)
         | (Inr u, w) \<Rightarrow>
             if aliased then (Inr (), h\<lparr>dv_c := remove_iterating 0 (dv_c h), world := w\<rparr>)
             else (case remove_each dv (dv_c h) of
                     (r, xs) \<Rightarrow> (r, h\<lparr>dv_c := xs, world := w\<rparr>)))
      else (Inr (), h))"

definition cleanup_cont ::
  "'w env \<Rightarrow> bool \<Rightarrow> achall list \<Rightarrow> 'w handler \<Rightarrow> (error + unit) \<times> 'w handler" where
  "cleanup_cont env aliased cont h =
     (if cont \<noteq> [] then
        (case cont_cleanup env cont (world h) of
           (Inl e, w) \<Rightarrow> (Inl e, h\<lparr>world := w\<rparr>)
         | (Inr u, w) \<Rightarrow>
             if aliased then (Inr (), h\<lparr>cont_c := remove_iterating 0 (cont_c h), world := w\<rparr>)
             else (case remove_each cont (cont_c h) of
                     (r, xs) \<Rightarrow> (r, h\<lparr>cont_c := xs, world := w\<rparr>)))
      else (Inr (), h))"

definition cleanup_challenges ::
  "'w env \<Rightarrow> achall list option \<Rightarrow> 'w handler \<Rightarrow> (error + unit) \<times> 'w handler" where
  "cleanup_challenges env achall_list h =
     (case achall_list of
        None \<Rightarrow>
          (case cleanup_dv env True (dv_c h) h of
             (Inl e, h1) \<Rightarrow> (Inl e, h1)
           | (Inr u, h1) \<Rightarrow> cleanup_cont env True (cont_c h1) h1)
      | Some al \<Rightarrow>
          (case cleanup_dv env False
                  [a \<leftarrow> al. isinstance (cls (chall (challb a))) DVChallenge] h of
             (Inl e, h1) \<Rightarrow> (Inl e, h1)
           | (Inr u, h1) \<Rightarrow>
               cleanup_cont env False
                 [a \<leftarrow> al. isinstance (cls (chall (challb a))) ContinuityChallenge] h1))"

subsection \<open>Solving and responding\<close>

text \<open>The body of the \<open>try\<close> in \<open>_solve_challenges\<close>.\<close>

definition perform_challenges ::
  "'w env \<Rightarrow> 'w handler \<Rightarrow> (error + (string option list \<times> string option list)) \<times> 'w handler"
  where
  "perform_challenges env h =
     (case (if cont_c h \<noteq> [] then cont_perform env (cont_c h) (world h)
            else (Inr [], world h)) of
        (Inl e, w) \<Rightarrow> (Inl e, h\<lparr>world := w\<rparr>)
      | (Inr cont_resp, w) \<Rightarrow>
          (case (if dv_c h \<noteq> [] then dv_perform env (dv_c h) w else (Inr [], w)) of
             (Inl e, w') \<Rightarrow> (Inl e, h\<lparr>world := w'\<rparr>)
           | (Inr dv_resp, w') \<Rightarrow> (Inr (cont_resp, dv_resp), h\<lparr>world := w'\<rparr>)))"

definition solve_challenges ::
  "'w env \<Rightarrow> 'w handler \<Rightarrow> (error + (string option list \<times> string option list)) \<times> 'w handler"
  where
  "solve_challenges env h =
     (case perform_challenges env h of
        (Inl e, h1) \<Rightarrow>
          if is_AuthorizationError e then
            (case cleanup_challenges env None h1 of
               (Inl e', h2) \<Rightarrow> (Inl e', h2)
             | (Inr u, h2) \<Rightarrow> (Inl e, h2))
          else (Inl e, h1)
      | (Inr (cont_resp, dv_resp), h1) \<Rightarrow>
          if length cont_resp \<noteq> length (cont_c h1) then (Inl AssertionError, h1)
          else if length dv_resp \<noteq> length (dv_c h1) then (Inl AssertionError, h1)
          else (Inr (cont_resp, dv_resp), h1))"

text \<open>
  \<open>_send_responses\<close>, carrying \<open>chall_update\<close> and \<open>active_achalls\<close>; \<open>izip\<close> stops
  with the shorter list.
\<close>

fun send_responses ::
  "'w env \<Rightarrow> achall list \<Rightarrow> string option list
     \<Rightarrow> (string \<times> achall list) list \<times> achall list \<Rightarrow> 'w handler
     \<Rightarrow> (error + ((string \<times> achall list) list \<times> achall list)) \<times> 'w handler" where
  "send_responses env (a # achalls) (resp # resps) (chall_upd, active_achalls) h =
     (case resp of
        None \<Rightarrow> send_responses env achalls resps (chall_upd, active_achalls) h
      | Some r \<Rightarrow>
          (case answer_challenge env (challb a) r (world h) of
             (Inl e, w) \<Rightarrow> (Inl e, h\<lparr>world := w\<rparr>)
           | (Inr u, w) \<Rightarrow>
               send_responses env achalls resps
                 (case map_of chall_upd (domain a) of
                    Some l \<Rightarrow> AList.update (domain a) (l @ [a]) chall_upd
                  | None \<Rightarrow> AList.update (domain a) [a] chall_upd,
                  active_achalls @ [a])
                 (h\<lparr>world := w\<rparr>)))"
| "send_responses env achalls resps acc h = (Inr acc, h)"

subsection \<open>Polling\<close>

definition target_not_found_msg :: string where
  "target_not_found_msg = ''Target challenge not found in authorization resource''"

definition get_chall_status :: "authzr \<Rightarrow> achall \<Rightarrow> error + status" where
  "get_chall_status a ac =
     (case find (\<lambda>authzr_challb. cls (chall authzr_challb) = cls (chall (challb ac)))
             (challenges (body a)) of
        Some authzr_challb \<Rightarrow> Inr (cb_status authzr_challb)
      | None \<Rightarrow> Inl (AuthorizationError target_not_found_msg))"

fun check_loop ::
  "authzr \<Rightarrow> achall list \<Rightarrow> achall list \<times> achall list
     \<Rightarrow> error + (achall list \<times> achall list)" where
  "check_loop a [] acc = Inr acc"
| "check_loop a (ac # rest) (completed, failed) =
     (case get_chall_status a ac of
        Inl e \<Rightarrow> Inl e
      | Inr st \<Rightarrow>
          if st = STATUS_VALID then check_loop a rest (completed @ [ac], failed)
          else if st = STATUS_INVALID then check_loop a rest (completed, failed @ [ac])
          else check_loop a rest (completed, failed))"

definition handle_check ::
  "'w env \<Rightarrow> string \<Rightarrow> achall list \<Rightarrow> 'w handler
     \<Rightarrow> (error + (achall list \<times> achall list)) \<times> 'w handler" where
  "handle_check env dmn achalls h =
     (case py_getitem (authzr h) dmn of
        Inl e \<Rightarrow> (Inl e, h)
      | Inr a \<Rightarrow>
          (case poll env a (world h) of
             (Inl e, w) \<Rightarrow> (Inl e, h\<lparr>world := w\<rparr>)
           | (Inr a', w) \<Rightarrow>
               (if az_status (body a') = STATUS_VALID
                then (Inr (achalls, []), h\<lparr>authzr := AList.update dmn a' (authzr h), world := w\<rparr>)
                else (case check_loop a' achalls ([], []) of
                        Inl e \<Rightarrow> (Inl e, h\<lparr>authzr := AList.update dmn a' (authzr h), world := w\<rparr>)
                      | Inr cf \<Rightarrow>
                          (Inr cf, h\<lparr>authzr := AList.update dmn a' (authzr h), world := w\<rparr>)))))"

definition failed_msg :: "string \<Rightarrow> string" where
  "failed_msg dmn = ''Failed Authorization procedure for '' @ dmn"

text \<open>
  One round: the \<open>for\<close> loop over \<open>dom_to_check\<close>, carrying \<open>chall_update\<close> and
  \<open>comp_domains\<close>.
\<close>

fun poll_domains ::
  "'w env \<Rightarrow> bool \<Rightarrow> string list \<Rightarrow> (string \<times> achall list) list \<Rightarrow> string list \<Rightarrow> 'w handler
     \<Rightarrow> (error + ((string \<times> achall list) list \<times> string list)) \<times> 'w handler" where
  "poll_domains env best_effort [] chall_upd comp_domains h =
     (Inr (chall_upd, comp_domains), h)"
| "poll_domains env best_effort (dmn # rest) chall_upd comp_domains h =
     (case py_getitem chall_upd dmn of
        Inl e \<Rightarrow> (Inl e, h)
      | Inr achalls \<Rightarrow>
          (case handle_check env dmn achalls h of
             (Inl e, h1) \<Rightarrow> (Inl e, h1)
           | (Inr (comp_challs, failed_challs), h1) \<Rightarrow>
               if length comp_challs = length achalls
               then poll_domains env best_effort rest chall_upd
                      (List.insert dmn comp_domains) h1
               else if failed_challs = []
               then (case remove_each comp_challs achalls of
                       (Inl e, xs) \<Rightarrow> (Inl e, h1)
                     | (Inr u, xs) \<Rightarrow>
                         poll_domains env best_effort rest
                           (AList.update dmn xs chall_upd) comp_domains h1)
               else if best_effort
               then poll_domains env best_effort rest chall_upd
                      (List.insert dmn comp_domains) h1
               else (Inl (AuthorizationError (failed_msg dmn)), h1)))"

text \<open>The \<open>while\<close> loop of \<open>_poll_challenges\<close>; each round starts with \<open>time.sleep\<close>.\<close>

function poll_loop ::
  "'w env \<Rightarrow> bool \<Rightarrow> int \<Rightarrow> int \<Rightarrow> (string \<times> achall list) list \<Rightarrow> string list \<Rightarrow> int
     \<Rightarrow> 'w handler \<Rightarrow> (error + unit) \<times> 'w handler" where
  "poll_loop env best_effort min_sleep max_rounds chall_upd dom_to_check rounds h =
     (if dom_to_check \<noteq> [] \<and> rounds < max_rounds then
        (case poll_domains env best_effort dom_to_check chall_upd []
                (h\<lparr>sleep_log := sleep_log h @ [min_sleep]\<rparr>) of
           (Inl e, h1) \<Rightarrow> (Inl e, h1)
         | (Inr (chall_upd2, comp_domains), h1) \<Rightarrow>
             poll_loop env best_effort min_sleep max_rounds chall_upd2
               [d \<leftarrow> dom_to_check. d \<notin> set comp_domains] (rounds + 1) h1)
      else (Inr (), h))"
  by pat_completeness auto
termination
  by (relation "measure (\<lambda>(env, be, ms, max_rounds, cu, dtc, rounds, h). nat (max_rounds - rounds))")
     auto

definition poll_challenges ::
  "'w env \<Rightarrow> (string \<times> achall list) list \<Rightarrow> bool \<Rightarrow> int \<Rightarrow> int \<Rightarrow> 'w handler
     \<Rightarrow> (error + unit) \<times> 'w handler" where
  "poll_challenges env chall_upd best_effort min_sleep max_rounds h =
     poll_loop env best_effort min_sleep max_rounds chall_upd (map fst chall_upd) 0 h"

text \<open>The defaults of \<open>_poll_challenges\<close>, which \<open>_respond\<close> relies on.\<close>

definition default_min_sleep :: int where
  "default_min_sleep = 3"

definition default_max_rounds :: int where
  "default_max_rounds = 15"

text \<open>
  \<open>_respond\<close>: the responses of the DV challenges go out first, then those of the
  continuity challenges; the cleanup of the active challenges is the \<open>finally\<close> of the
  polling, so it runs on either outcome and its own exception wins.
\<close>

definition respond ::
  "'w env \<Rightarrow> string option list \<Rightarrow> string option list \<Rightarrow> bool \<Rightarrow> 'w handler
     \<Rightarrow> (error + unit) \<times> 'w handler" where
  "respond env cont_resp dv_resp best_effort h =
     (case send_responses env (dv_c h) dv_resp ([], []) h of
        (Inl e, h1) \<Rightarrow> (Inl e, h1)
      | (Inr (cu1, active_dv), h1) \<Rightarrow>
          (case send_responses env (cont_c h1) cont_resp (cu1, []) h1 of
             (Inl e, h2) \<Rightarrow> (Inl e, h2)
           | (Inr (chall_upd, active_cont), h2) \<Rightarrow>
               (case poll_challenges env chall_upd best_effort
                       default_min_sleep default_max_rounds h2 of
                  (r, h3) \<Rightarrow>
                    (case cleanup_challenges env (Some (active_dv @ active_cont)) h3 of
                       (Inl e', h4) \<Rightarrow> (Inl e', h4)
                     | (Inr u, h4) \<Rightarrow> (r, h4)))))"

subsection \<open>The whole call\<close>

definition incomplete_msg :: string where
  "incomplete_msg = ''Incomplete authorizations''"

fun verify_loop :: "authzr list \<Rightarrow> error + unit" where
  "verify_loop [] = Inr ()"
| "verify_loop (a # rest) =
     (if az_status (body a) \<noteq> STATUS_VALID \<and> az_status (body a) \<noteq> STATUS_INVALID
      then Inl (AuthorizationError incomplete_msg)
      else verify_loop rest)"

definition verify_authzr_complete :: "'w handler \<Rightarrow> error + unit" where
  "verify_authzr_complete h = verify_loop (map snd (authzr h))"

fun request_loop ::
  "'w env \<Rightarrow> string list \<Rightarrow> 'w handler \<Rightarrow> (error + unit) \<times> 'w handler" where
  "request_loop env [] h = (Inr (), h)"
| "request_loop env (dmn # rest) h =
     (case request_domain_challenges env dmn (new_authzr_uri (account h)) (world h) of
        (Inl e, w) \<Rightarrow> (Inl e, h\<lparr>world := w\<rparr>)
      | (Inr a, w) \<Rightarrow>
          request_loop env rest (h\<lparr>authzr := AList.update dmn a (authzr h), world := w\<rparr>))"

text \<open>
  \<open>while self.dv_c or self.cont_c\<close> need not end (an authenticator may keep answering
  with falsy responses), so the loop takes fuel: \<open>None\<close> is "still running".
\<close>

fun challenge_loop ::
  "nat \<Rightarrow> 'w env \<Rightarrow> bool \<Rightarrow> 'w handler \<Rightarrow> ((error + unit) \<times> 'w handler) option" where
  "challenge_loop 0 env best_effort h = None"
| "challenge_loop (Suc n) env best_effort h =
     (if dv_c h \<noteq> [] \<or> cont_c h \<noteq> [] then
        (case solve_challenges env h of
           (Inl e, h1) \<Rightarrow> Some (Inl e, h1)
         | (Inr (cont_resp, dv_resp), h1) \<Rightarrow>
             (case respond env cont_resp dv_resp best_effort h1 of
                (Inl e, h2) \<Rightarrow> Some (Inl e, h2)
              | (Inr u, h2) \<Rightarrow> challenge_loop n env best_effort h2))
      else Some (Inr (), h))"

text \<open>
  \<open>get_authorizations\<close>. \<open>domains\<close> is the set of requested domains in the order its
  two loops visit it.
\<close>

definition get_authorizations ::
  "nat \<Rightarrow> 'w env \<Rightarrow> string list \<Rightarrow> bool \<Rightarrow> 'w handler
     \<Rightarrow> ((error + authzr list) \<times> 'w handler) option" where
  "get_authorizations fuel env domains best_effort h =
     (case request_loop env domains h of
        (Inl e, h1) \<Rightarrow> Some (Inl e, h1)
      | (Inr u, h1) \<Rightarrow>
          (case choose_challenges env domains h1 of
             (Inl e, h2) \<Rightarrow> Some (Inl e, h2)
           | (Inr u, h2) \<Rightarrow>
               (case challenge_loop fuel env best_effort h2 of
                  None \<Rightarrow> None
                | Some (Inl e, h3) \<Rightarrow> Some (Inl e, h3)
                | Some (Inr u, h3) \<Rightarrow>
                    (case verify_authzr_complete h3 of
                       Inl e \<Rightarrow> Some (Inl e, h3)
                     | Inr u \<Rightarrow>
                         Some (Inr [a \<leftarrow> map snd (authzr h3). az_status (body a) = STATUS_VALID],
                               h3)))))"

section \<open>Client\<close>

text \<open>
  What \<open>Client.obtain_certificate\<close> uses besides the handler: key and CSR generation
  (\<open>crypto_util\<close>), issuance and chain retrieval (the network), and the PEM encoding.
  They act on the same world as the handler's collaborators.
\<close>

record client_config =
  rsa_key_size :: nat
  key_dir :: string
  cert_dir :: string

record csr_file =
  csr_path :: string
  csr_data :: string

record certificate_resource =
  cert_body :: string
  cert_uri :: string
  cert_chain_uri :: "string option"

record 'w client_env =
  init_save_key :: "nat \<Rightarrow> string \<Rightarrow> 'w \<Rightarrow> (error + le_key) \<times> 'w"
  init_save_csr :: "le_key \<Rightarrow> string list \<Rightarrow> string \<Rightarrow> 'w \<Rightarrow> (error + csr_file) \<times> 'w"
  request_issuance :: "string \<Rightarrow> authzr list \<Rightarrow> 'w \<Rightarrow> (error + certificate_resource) \<times> 'w"
  fetch_chain :: "certificate_resource \<Rightarrow> 'w \<Rightarrow> (error + string option) \<times> 'w"
  as_pem :: "string \<Rightarrow> string"

record 'w client =
  client_account :: account
  auth_handler :: "'w handler option"
  config :: client_config

definition no_authenticator_msg :: string where
  "no_authenticator_msg = ''Unable to obtain certificate because authenticator is not set.''"

definition not_registered_msg :: string where
  "not_registered_msg = ''Please register with the ACME server first.''"

text \<open>
  \<open>obtain_certificate(domains, csr)\<close>. The assignment
  \<open>csr = crypto_util.init_save_csr(...)\<close> rebinds the parameter before its first use;
  the pattern variable \<open>csr\<close> below does the same. The result is the triple
  \<open>(cert_pem, key_pem, chain_pem)\<close>, with the client as the call leaves it.
\<close>

definition obtain_certificate ::
  "nat \<Rightarrow> 'w env \<Rightarrow> 'w client_env \<Rightarrow> 'w client \<Rightarrow> string list \<Rightarrow> csr_file option
     \<Rightarrow> ((error + string \<times> string \<times> string) \<times> 'w client) option" where
  "obtain_certificate fuel env cenv c domains csr =
     (case auth_handler c of
        None \<Rightarrow> Some (Inl (LetsEncryptClientError no_authenticator_msg), c)
      | Some h \<Rightarrow>
          if regr (client_account c) = None
          then Some (Inl (LetsEncryptClientError not_registered_msg), c)
          else
            (case get_authorizations fuel env domains False h of
               None \<Rightarrow> None
             | Some (Inl e, h1) \<Rightarrow> Some (Inl e, c\<lparr>auth_handler := Some h1\<rparr>)
             | Some (Inr authzrs, h1) \<Rightarrow>
                 (case init_save_key cenv (rsa_key_size (config c)) (key_dir (config c))
                         (world h1) of
                    (Inl e, w) \<Rightarrow> Some (Inl e, c\<lparr>auth_handler := Some (h1\<lparr>world := w\<rparr>)\<rparr>)
                  | (Inr cert_key, w) \<Rightarrow>
                      (case init_save_csr cenv cert_key domains (cert_dir (config c)) w of
                         (Inl e, w) \<Rightarrow> Some (Inl e, c\<lparr>auth_handler := Some (h1\<lparr>world := w\<rparr>)\<rparr>)
                       | (Inr csr, w) \<Rightarrow>
                           (case request_issuance cenv (csr_data csr) authzrs w of
                              (Inl e, w) \<Rightarrow>
                                Some (Inl e, c\<lparr>auth_handler := Some (h1\<lparr>world := w\<rparr>)\<rparr>)
                            | (Inr certr, w) \<Rightarrow>
                                (case (if cert_chain_uri certr \<noteq> None
                                       then fetch_chain cenv certr w
                                       else (Inr None, w)) of
                                   (Inl e, w) \<Rightarrow>
                                     Some (Inl e, c\<lparr>auth_handler := Some (h1\<lparr>world := w\<rparr>)\<rparr>)
                                 | (Inr chain, w) \<Rightarrow>
                                     Some (Inr (as_pem cenv (cert_body certr),
                                                key_pem cert_key,
                                                (case chain of
                                                   None \<Rightarrow> []
                                                 | Some ch \<Rightarrow> as_pem cenv ch)),
                                           c\<lparr>auth_handler := Some (h1\<lparr>world := w\<rparr>)\<rparr>)))))))"

section \<open>Account store\<close>

text \<open>
  \<open>EMAIL_REGEX = "[a-zA-Z0-9._%+-]+@[a-zA-Z0-9.-]+$"\<close>, applied with \<open>match\<close>: a
  non-empty run of local characters, an at sign, a non-empty run of domain characters,
  then the end of the string or a single final newline (which \<open>$\<close> also accepts). Neither
  class contains the at sign, so both runs are maximal.
\<close>

definition local_chars :: string where
  "local_chars = ''abcdefghijklmnopqrstuvwxyzABCDEFGHIJKLMNOPQRSTUVWXYZ0123456789._%+-''"

definition domain_chars :: string where
  "domain_chars = ''abcdefghijklmnopqrstuvwxyzABCDEFGHIJKLMNOPQRSTUVWXYZ0123456789.-''"

definition EMAIL_REGEX_match :: "string \<Rightarrow> bool" where
  "EMAIL_REGEX_match e =
     (takeWhile (\<lambda>c. c \<in> set local_chars) e \<noteq> [] \<and>
      (case dropWhile (\<lambda>c. c \<in> set local_chars) e of
         [] \<Rightarrow> False
       | c # d \<Rightarrow>
           c = CHR ''@'' \<and> takeWhile (\<lambda>c. c \<in> set domain_chars) d \<noteq> [] \<and>
           (dropWhile (\<lambda>c. c \<in> set domain_chars) d = [] \<or>
            dropWhile (\<lambda>c. c \<in> set domain_chars) d = [CHR 0x0A])))"

fun contains_dotdot :: "string \<Rightarrow> bool" where
  "contains_dotdot (a # b # rest) =
     ((a = CHR ''.'' \<and> b = CHR ''.'') \<or> contains_dotdot (b # rest))"
| "contains_dotdot s = False"

definition safe_email :: "string \<Rightarrow> bool" where
  "safe_email e =
     (if EMAIL_REGEX_match e
      then \<not> (case e of [] \<Rightarrow> False | c # cs \<Rightarrow> c = CHR ''.'') \<and> \<not> contains_dotdot e
      else False)"

text \<open>
  \<open>Account.__init__\<close>: an email that is not safe is dropped. (The directory check it
  starts with has no part in the account's value.)
\<close>

definition account_init ::
  "le_key \<Rightarrow> string option \<Rightarrow> string option \<Rightarrow> registration_resource option \<Rightarrow> account" where
  "account_init k em ph rg =
     \<lparr>key = k,
      email = (case em of None \<Rightarrow> None | Some e \<Rightarrow> if safe_email e then Some e else None),
      phone = ph,
      regr = rg\<rparr>"

definition get_config_filename :: "string option \<Rightarrow> string" where
  "get_config_filename em =
     (case em of None \<Rightarrow> ''default'' | Some e \<Rightarrow> if e \<noteq> [] then e else ''default'')"

text \<open>\<open>os.path.join\<close> of two components and \<open>os.path.basename\<close>, on POSIX paths.\<close>

definition path_join :: "string \<Rightarrow> string \<Rightarrow> string" where
  "path_join a b =
     (if b \<noteq> [] \<and> hd b = CHR ''/'' then b
      else if a = [] \<or> last a = CHR ''/'' then a @ b
      else a @ ''/'' @ b)"

definition basename :: "string \<Rightarrow> string" where
  "basename p = rev (takeWhile (\<lambda>c. c \<noteq> CHR ''/'') (rev p))"

text \<open>
  Modelled from the spec: the account file is written and read by the \<open>configobj\<close>
  library, which is not part of the sources. The spec fixes its content: the keys
  \<open>key\<close> and \<open>phone\<close> (the literal \<open>None\<close> for an absent phone) and an optional
  section \<open>RegistrationResource\<close> with \<open>uri\<close>, \<open>new_authzr_uri\<close>,
  \<open>terms_of_service\<close> and \<open>body\<close>. A file is kept as these values, every scalar as the
  string the library writes for it (\<open>str(None)\<close> is \<open>None\<close>). How the registration
  body is written into the section and read back (\<open>Registration.to_json\<close> and
  \<open>from_json\<close> of \<open>acme.messages\<close>) is a parameter. Account files and the other files
  (the key files) are kept apart.
\<close>

definition py_str :: "string option \<Rightarrow> string" where
  "py_str v = (case v of None \<Rightarrow> ''None'' | Some s \<Rightarrow> s)"

record 'j rr_section =
  sec_uri :: string
  sec_new_authzr_uri :: string
  sec_terms_of_service :: string
  sec_body :: 'j

record 'j acc_config =
  cfg_key :: string
  cfg_phone :: string
  cfg_rr :: "'j rr_section option"

record 'j filesystem =
  config_files :: "string \<rightharpoonup> 'j acc_config"
  text_files :: "string \<rightharpoonup> string"

record 'j codec =
  to_json :: "registration \<Rightarrow> 'j"
  from_json :: "'j \<Rightarrow> error + registration"

definition save :: "'j codec \<Rightarrow> string \<Rightarrow> account \<Rightarrow> 'j filesystem \<Rightarrow> 'j filesystem" where
  "save cd accounts_dir a fs =
     fs\<lparr>config_files :=
          (config_files fs)
            (path_join accounts_dir (get_config_filename (email a)) \<mapsto>
               \<lparr>cfg_key = key_file (key a),
                cfg_phone = py_str (phone a),
                cfg_rr =
                  (case regr a of
                     None \<Rightarrow> None
                   | Some r \<Rightarrow>
                       Some \<lparr>sec_uri = rr_uri r,
                             sec_new_authzr_uri = rr_new_authzr_uri r,
                             sec_terms_of_service = py_str (rr_terms_of_service r),
                             sec_body = to_json cd (rr_body r)\<rparr>)\<rparr>)\<rparr>"

definition no_account_msg :: "string \<Rightarrow> string" where
  "no_account_msg name = ''Account for '' @ name @ '' does not exist''"

definition from_config_fp :: "'j codec \<Rightarrow> string \<Rightarrow> 'j filesystem \<Rightarrow> error + account" where
  "from_config_fp cd config_fp fs =
     (case config_files fs config_fp of
        None \<Rightarrow> Inl (LetsEncryptClientError (no_account_msg (basename config_fp)))
      | Some acc_config \<Rightarrow>
          (case text_files fs (cfg_key acc_config) of
             None \<Rightarrow> Inl IOError
           | Some pem \<Rightarrow>
               (case cfg_rr acc_config of
                  None \<Rightarrow>
                    Inr (account_init \<lparr>key_file = cfg_key acc_config, key_pem = pem\<rparr>
                           (if basename config_fp \<noteq> ''default''
                            then Some (basename config_fp) else None)
                           (if cfg_phone acc_config \<noteq> ''None''
                            then Some (cfg_phone acc_config) else None)
                           None)
                | Some acc_config_rr \<Rightarrow>
                    (case from_json cd (sec_body acc_config_rr) of
                       Inl e \<Rightarrow> Inl e
                     | Inr b \<Rightarrow>
                         Inr (account_init \<lparr>key_file = cfg_key acc_config, key_pem = pem\<rparr>
                                (if basename config_fp \<noteq> ''default''
                                 then Some (basename config_fp) else None)
                                (if cfg_phone acc_config \<noteq> ''None''
                                 then Some (cfg_phone acc_config) else None)
                                (Some \<lparr>rr_body = b,
                                       rr_uri = sec_uri acc_config_rr,
                                       rr_new_authzr_uri = sec_new_authzr_uri acc_config_rr,
                                       rr_terms_of_service =
                                         Some (sec_terms_of_service acc_config_rr)\<rparr>))))))"

definition from_existing_account ::
  "'j codec \<Rightarrow> string \<Rightarrow> string option \<Rightarrow> 'j filesystem \<Rightarrow> error + account" where
  "from_existing_account cd accounts_dir em fs =
     from_config_fp cd (path_join accounts_dir (get_config_filename em)) fs"

section \<open>Notions of the specification and sample values\<close>

text \<open>The specification's terminal statuses: valid, invalid, revoked.\<close>

definition terminal_status :: "status \<Rightarrow> bool" where
  "terminal_status s = (s = STATUS_VALID \<or> s = STATUS_INVALID \<or> s = STATUS_REVOKED)"

text \<open>A sample authorization resource for a domain, and an unregistered sample account.\<close>

definition mk_authzr :: "string \<Rightarrow> challb list \<Rightarrow> int list list option \<Rightarrow> status \<Rightarrow> authzr" where
  "mk_authzr d cbs combos st =
     \<lparr>body = \<lparr>az_identifier = d, challenges = cbs, combinations = combos, az_status = st\<rparr>,
      az_uri = ''https://ca.example/authz/'' @ d, new_cert_uri = ''https://ca.example/new-cert''\<rparr>"

definition acct0 :: account where
  "acct0 = \<lparr>key = \<lparr>key_file = ''/keys/a'', key_pem = ''PEM''\<rparr>, email = None, phone = None,
            regr = None\<rparr>"

text \<open>
  What \<open>_cleanup_challenges\<close> asks of an authenticator: \<open>cleanup\<close> is called on a
  non-empty list only.
\<close>

definition cleanup_call ::
  "(achall list \<Rightarrow> 'w \<Rightarrow> (error + unit) \<times> 'w) \<Rightarrow> achall list \<Rightarrow> 'w \<Rightarrow> (error + unit) \<times> 'w" where
  "cleanup_call f xs w = (if xs \<noteq> [] then f xs w else (Inr (), w))"

text \<open>
  A sample world: the log of the calls made to the server and to the authenticators. The
  server answers every request with \<open>a0\<close> (for the requested domain) and every poll with
  \<open>a1\<close>; the DV authenticator answers \<open>perform\<close> with \<open>perf\<close>.
\<close>

definition sample_env ::
  "(string \<Rightarrow> authzr) \<Rightarrow> (authzr \<Rightarrow> authzr) \<Rightarrow> (achall list \<Rightarrow> error + string option list)
     \<Rightarrow> string list env" where
  "sample_env a0 a1 perf =
     \<lparr>request_domain_challenges = (\<lambda>d u w. (Inr (a0 d), w @ [''request''])),
      answer_challenge = (\<lambda>cb r w. (Inr (), w @ [''answer''])),
      poll = (\<lambda>a w. (Inr (a1 a), w @ [''poll''])),
      cont_get_chall_pref = (\<lambda>d. [Leaf RecoveryToken]),
      dv_get_chall_pref = (\<lambda>d. [Leaf SimpleHTTP]),
      cont_perform = (\<lambda>acs w. (Inr (map (\<lambda>a. Some ''r'') acs), w @ [''cont_perform''])),
      dv_perform = (\<lambda>acs w. (perf acs, w @ [''dv_perform''])),
      cont_cleanup = (\<lambda>acs w. (Inr (), w @ [''cont_cleanup''])),
      dv_cleanup = (\<lambda>acs w. (Inr (), w @ [''dv_cleanup''])),
      exclusive_groups = [[Leaf DVSNI, Leaf SimpleHTTP]]\<rparr>"

text \<open>A handler holding two outstanding DV challenges.\<close>

definition mk_achall :: "chall_typ \<Rightarrow> string \<Rightarrow> achall" where
  "mk_achall t d = \<lparr>challb = mk_challb t, domain = d, akey = None\<rparr>"

definition two_dv :: "string list handler" where
  "two_dv = (init_handler acct0 [])\<lparr>dv_c := [mk_achall SimpleHTTP ''a.test'', mk_achall DNS ''a.test'']\<rparr>"

text \<open>
  A server that reports status \<open>st\<close> for the authorization at every poll (leaving the
  challenges as they are), an authenticator that answers every challenge, and a server
  that offers one \<open>SimpleHTTP\<close> challenge without combinations.
\<close>

definition set_status :: "status \<Rightarrow> authzr \<Rightarrow> authzr" where
  "set_status st a = a\<lparr>body := (body a)\<lparr>az_status := st\<rparr>\<rparr>"

definition all_respond :: "achall list \<Rightarrow> error + string option list" where
  "all_respond acs = Inr (map (\<lambda>a. Some ''r'') acs)"

definition offer_http :: "string \<Rightarrow> authzr" where
  "offer_http d = mk_authzr d [mk_challb SimpleHTTP] None STATUS_PENDING"


text \<open>Sample values for the account store; the sample codec stores the body as it is.\<close>

definition id_codec :: "registration codec" where
  "id_codec = \<lparr>to_json = (\<lambda>b. b), from_json = (\<lambda>j. Inr j)\<rparr>"

definition sample_regr :: registration_resource where
  "sample_regr =
     \<lparr>rr_body = \<lparr>reg_key = Some ''jwk'', contact = [''tel:1234'', ''mailto:a@b.com''],
                 recovery_token = Some ''tok'', agreement = None\<rparr>,
      rr_uri = ''https://ca.example/reg/1'',
      rr_new_authzr_uri = ''https://ca.example/new-authz'',
      rr_terms_of_service = Some ''https://ca.example/tos''\<rparr>"

definition sample_account :: "string \<Rightarrow> registration_resource \<Rightarrow> account" where
  "sample_account p r =
     \<lparr>key = \<lparr>key_file = ''/keys/a@b.com'', key_pem = ''PEM''\<rparr>, email = Some ''a@b.com'',
      phone = Some p, regr = Some r\<rparr>"

definition sample_fs :: "registration filesystem" where
  "sample_fs = \<lparr>config_files = Map.empty, text_files = [''/keys/a@b.com'' \<mapsto> ''PEM'']\<rparr>"

section \<open>Properties of the path planner\<close>

lemma py_index_in_range:
  "py_index xs i = (if in_range (length xs) i then Inr (xs ! norm_index (length xs) i) else Inl IndexError)"
  by (simp add: py_index_def)

lemma takeWhile_neq_length:
  "c \<in> set xs \<Longrightarrow> length (takeWhile (\<lambda>y. y \<noteq> c) xs) < length xs"
  by (induction xs) auto

lemma takeWhile_neq_snoc:
  "c \<notin> set xs \<Longrightarrow> takeWhile (\<lambda>y. y \<noteq> c) (xs @ [c]) = xs"
  by (induction xs) auto

lemma spec_rank_Cons:
  "c \<in> set cs \<Longrightarrow> spec_rank (x # cs) c = Suc (spec_rank cs c)"
proof -
  assume c: "c \<in> set cs"
  then have tw: "takeWhile (\<lambda>y. y \<noteq> c) (rev cs @ [x]) = takeWhile (\<lambda>y. y \<noteq> c) (rev cs)"
    by (simp add: takeWhile_append1)
  from c have "length (takeWhile (\<lambda>y. y \<noteq> c) (rev cs)) < length cs"
    using takeWhile_neq_length [of c "rev cs"] by simp
  with tw show ?thesis by (simp add: spec_rank_def)
qed

lemma spec_rank_Cons_notin:
  "c \<notin> set cs \<Longrightarrow> spec_rank (c # cs) c = 0"
proof -
  assume "c \<notin> set cs"
  then have "takeWhile (\<lambda>y. y \<noteq> c) (rev cs @ [c]) = rev cs"
    using takeWhile_neq_snoc [of c "rev cs"] by simp
  then show ?thesis by (simp add: spec_rank_def)
qed

lemma chall_cost_loop_eq:
  "chall_cost_loop i cs (m, mc) =
     ((\<lambda>c. if c \<in> set cs then Some (i + spec_rank cs c) else m c),
      mc + sum_list [i..<i + length cs])"
proof (induction cs arbitrary: i m mc)
  case Nil
  show ?case by simp
next
  case (Cons x cs)
  have "[i..<i + length (x # cs)] = i # [Suc i..<Suc i + length cs]"
    by (simp add: upt_conv_Cons del: upt_Suc)
  then have s: "sum_list [i..<i + length (x # cs)] = i + sum_list [Suc i..<Suc i + length cs]"
    by (simp only: sum_list.Cons)
  show ?case
    unfolding chall_cost_loop.simps Cons.IH s
    by (auto simp: fun_eq_iff spec_rank_Cons spec_rank_Cons_notin)
qed

lemma combo_loop_eq:
  "\<forall>i\<in>set combo. in_range (length challbs) i \<Longrightarrow>
   combo_loop challbs cc mc combo t =
     Inr (t + sum_list (map (\<lambda>i. case cc (Leaf (cls (chall (challbs ! norm_index (length challbs) i)))) of
                                None \<Rightarrow> mc | Some c \<Rightarrow> c) combo))"
  by (induction combo arbitrary: t) (simp_all add: py_index_in_range)

lemma combo_loop_spec:
  assumes "\<forall>i\<in>set combo. in_range (length challbs) i"
  shows "combo_loop challbs (fst (chall_cost_loop 0 prefs (Map.empty, 1)))
           (snd (chall_cost_loop 0 prefs (Map.empty, 1))) combo 0
         = Inr (spec_combo_cost challbs prefs combo)"
proof -
  have cl: "chall_cost_loop 0 prefs (Map.empty, 1) =
      ((\<lambda>c. if c \<in> set prefs then Some (spec_rank prefs c) else None), spec_max_cost prefs)"
    by (simp add: chall_cost_loop_eq spec_max_cost_def cong: if_cong)
  have "\<And>cb. (case (if Leaf (cls (chall cb)) \<in> set prefs
                  then Some (spec_rank prefs (Leaf (cls (chall cb)))) else None) of
              None \<Rightarrow> spec_max_cost prefs | Some c \<Rightarrow> c) = spec_chall_cost prefs cb"
    by (simp add: spec_chall_cost_def)
  then show ?thesis
    using assms unfolding cl
    by (simp add: combo_loop_eq spec_combo_cost_def)
qed

lemma first_least_Cons_least:
  "\<forall>y\<in>set xs. f x \<le> f y \<Longrightarrow> first_least f (x # xs) = Some x"
  by (simp add: first_least_def list_all_iff)

lemma first_least_Cons_skip:
  assumes "z \<in> set xs" "f z < f x"
  shows "first_least f (x # xs) = first_least f xs"
proof -
  have "find (\<lambda>a. list_all (\<lambda>y. f a \<le> f y) (x # xs)) xs
      = find (\<lambda>a. list_all (\<lambda>y. f a \<le> f y) xs) xs"
  proof (rule find_cong [OF refl])
    fix a assume "a \<in> set xs"
    show "list_all (\<lambda>y. f a \<le> f y) (x # xs) = list_all (\<lambda>y. f a \<le> f y) xs"
      using assms by (auto simp: list_all_iff intro: order_trans less_imp_le)
  qed
  moreover have "\<not> list_all (\<lambda>y. f x \<le> f y) (x # xs)"
    using assms by (force simp: list_all_iff not_le)
  ultimately show ?thesis by (simp add: first_least_def)
qed

lemma best_loop_eq:
  assumes "\<forall>c\<in>set combos. combo_loop challbs cc mc c 0 = Inr (f c)"
  shows "best_loop challbs cc mc combos (b, bc) =
     Inr (if \<forall>c\<in>set combos. bc \<le> f c then (b, bc)
          else (the (first_least f combos), f (the (first_least f combos))))"
  using assms
proof (induction combos arbitrary: b bc)
  case Nil
  show ?case by simp
next
  case (Cons c rest)
  have fc: "combo_loop challbs cc mc c 0 = Inr (f c)" using Cons.prems by simp
  have rest: "\<forall>c\<in>set rest. combo_loop challbs cc mc c 0 = Inr (f c)" using Cons.prems by simp
  show ?case
  proof (cases "f c < bc")
    case True
    show ?thesis
    proof (cases "\<forall>y\<in>set rest. f c \<le> f y")
      case l: True
      then show ?thesis using True fc Cons.IH [OF rest, of c "f c"]
        by (auto simp: first_least_Cons_least)
    next
      case l: False
      then obtain z where z: "z \<in> set rest" "f z < f c" by (auto simp: not_le)
      show ?thesis using True fc Cons.IH [OF rest, of c "f c"] l
        by (auto simp: first_least_Cons_skip [OF z])
    qed
  next
    case False
    show ?thesis
    proof (cases "\<forall>y\<in>set rest. bc \<le> f y")
      case l: True
      then show ?thesis using False fc Cons.IH [OF rest, of b bc] by auto
    next
      case l: False
      then obtain z where z: "z \<in> set rest" "f z < bc" by (auto simp: not_le)
      with False have z': "f z < f c" by simp
      show ?thesis using False fc Cons.IH [OF rest, of b bc] l
        by (auto simp: first_least_Cons_skip [OF z(1) z'])
    qed
  qed
qed


lemma least_exists:
  "(z::'a) \<in> set xs \<Longrightarrow> \<exists>x\<in>set xs. \<forall>y\<in>set xs. (f x :: nat) \<le> f y"
proof (induction xs arbitrary: z)
  case Nil
  then show ?case by simp
next
  case (Cons a xs)
  show ?case
  proof (cases "xs = []")
    case True
    then show ?thesis by simp
  next
    case False
    then obtain w where "w \<in> set xs" by (cases xs) auto
    from Cons.IH [OF this] obtain x where x: "x \<in> set xs" "\<forall>y\<in>set xs. f x \<le> f y" by blast
    show ?thesis
    proof (cases "f a \<le> f x")
      case True
      with x show ?thesis by (auto intro: order_trans)
    next
      case False
      with x show ?thesis by (auto intro!: bexI [of _ x])
    qed
  qed
qed

lemma first_least_Some:
  "z \<in> set xs \<Longrightarrow> \<exists>x. first_least f xs = Some x"
proof -
  assume "z \<in> set xs"
  from least_exists [OF this, of f] obtain x where "x \<in> set xs" "\<forall>y\<in>set xs. f x \<le> f y"
    by blast
  then have "find (\<lambda>x. list_all (\<lambda>y. f x \<le> f y) xs) xs \<noteq> None"
    by (auto simp: find_None_iff list_all_iff)
  then show ?thesis by (auto simp: first_least_def)
qed

lemma find_smart_path_in_range:
  assumes "\<forall>combo\<in>set combos. \<forall>i\<in>set combo. in_range (length challbs) i"
  shows "find_smart_path challbs preferences combos =
     (case spec_best challbs preferences combos of
        None \<Rightarrow> Inl (AuthorizationError no_combination_msg)
      | Some best \<Rightarrow>
          if best = [] then Inl (AuthorizationError no_combination_msg) else Inr best)"
proof -
  obtain cc where cl:
    "chall_cost_loop 0 preferences (Map.empty, 1) = (cc, spec_max_cost preferences)"
    by (simp add: chall_cost_loop_eq spec_max_cost_def)
  have f: "\<forall>c\<in>set combos. combo_loop challbs cc (spec_max_cost preferences) c 0
             = Inr (spec_combo_cost challbs preferences c)"
    using combo_loop_spec [of _ challbs preferences] assms unfolding cl by simp
  show ?thesis
  proof (cases "\<forall>c\<in>set combos. spec_max_cost preferences \<le> spec_combo_cost challbs preferences c")
    case True
    then show ?thesis
      unfolding find_smart_path_def cl
      by (simp add: best_loop_eq [OF f] spec_best_def list_all_iff)
  next
    case False
    then obtain z where z: "z \<in> set combos"
        "spec_combo_cost challbs preferences z < spec_max_cost preferences"
      by (auto simp: not_le)
    have "\<exists>x. first_least (spec_combo_cost challbs preferences) combos = Some x"
      using z(1) by (rule first_least_Some)
    then obtain x where x: "first_least (spec_combo_cost challbs preferences) combos = Some x" ..
    show ?thesis using False
      unfolding find_smart_path_def cl
      by (auto simp: best_loop_eq [OF f] spec_best_def list_all_iff x)
  qed
qed

text \<open>
  Claim C4, as the code has it. For combinations whose indices all lie within the offered
  sequence (Python's range, \<open>-n \<le> i < n\<close>), \<open>_find_smart_path\<close> charges every
  combination the sum of the preference ranks of its challenges' variants (the rank is the
  position in the preference list, the last one should a class occur twice), and
  \<open>max_cost\<close>, the sum of all ranks plus one, for a variant that is not preferred. It
  selects the first combination in encounter order whose total is least, provided some
  combination costs less than \<open>max_cost\<close>. It raises \<open>AuthorizationError\<close> exactly
  when no combination costs less than \<open>max_cost\<close> or the selected combination is empty;
  otherwise it returns the selected combination.
\<close>

theorem find_smart_path_spec:
  assumes "\<forall>combo\<in>set combos. \<forall>i\<in>set combo. in_range (length challbs) i"
  shows "find_smart_path challbs preferences combos =
     (case spec_best challbs preferences combos of
        None \<Rightarrow> Inl (AuthorizationError no_combination_msg)
      | Some best \<Rightarrow>
          if best = [] then Inl (AuthorizationError no_combination_msg) else Inr best)"
  using assms by (rule find_smart_path_in_range)

theorem find_smart_path_spec_witness:
  "in_range (length [mk_challb SimpleHTTP, mk_challb DNS, mk_challb RecoveryToken]) 0
   \<and> in_range (length [mk_challb SimpleHTTP, mk_challb DNS, mk_challb RecoveryToken]) 1
   \<and> in_range (length [mk_challb SimpleHTTP, mk_challb DNS, mk_challb RecoveryToken]) 2
   \<and> find_smart_path [mk_challb SimpleHTTP, mk_challb DNS, mk_challb RecoveryToken]
        [Leaf DVSNI, Leaf SimpleHTTP, Leaf DNS, Leaf RecoveryToken] [[0, 2], [1, 2]] = Inr [0, 2]"
  using find_smart_path_spec [of "[[0, 2], [1, 2]]" "[mk_challb SimpleHTTP, mk_challb DNS, mk_challb RecoveryToken]"
        "[Leaf DVSNI, Leaf SimpleHTTP, Leaf DNS, Leaf RecoveryToken]"]
  by (simp add: in_range_def spec_best_def first_least_def spec_combo_cost_def spec_chall_cost_def
        spec_max_cost_def spec_rank_def norm_index_def mk_challb_def)

text \<open>
  The claim as stated fails on two inputs. The empty combination costs \<open>0 < max_cost\<close>,
  yet the planner raises \<open>AuthorizationError\<close>: its test for "nothing found" is the
  emptiness of \<open>best_combo\<close>. And with the supported combination \<open>[0]\<close> on offer, an
  index beyond the offered sequence in a later combination ends the call with
  \<open>IndexError\<close>.
\<close>

theorem find_smart_path_counterexample:
  "spec_combo_cost [mk_challb DNS] [Leaf DNS] [] < spec_max_cost [Leaf DNS]
   \<and> find_smart_path [mk_challb DNS] [Leaf DNS] [[]] = Inl (AuthorizationError no_combination_msg)
   \<and> spec_combo_cost [mk_challb DNS] [Leaf DNS] [0] < spec_max_cost [Leaf DNS]
   \<and> find_smart_path [mk_challb DNS] [Leaf DNS] [[0], [5]] = Inl IndexError"
  by (simp add: find_smart_path_def spec_combo_cost_def spec_max_cost_def py_index_def
        in_range_def spec_chall_cost_def spec_rank_def norm_index_def mk_challb_def)

lemma combo_loop_fault:
  "\<exists>i\<in>set combo. \<not> in_range (length challbs) i \<Longrightarrow>
   combo_loop challbs cc mc combo t = Inl IndexError"
  by (induction combo arbitrary: t) (auto simp: py_index_in_range)

lemma combo_loop_cases:
  "combo_loop challbs cc mc combo t = Inl IndexError \<or> (\<exists>n. combo_loop challbs cc mc combo t = Inr n)"
  by (induction combo arbitrary: t) (auto simp: py_index_in_range)

lemma best_loop_fault:
  "\<exists>combo\<in>set combos. \<exists>i\<in>set combo. \<not> in_range (length challbs) i \<Longrightarrow>
   best_loop challbs cc mc combos (b, bc) = Inl IndexError"
proof (induction combos arbitrary: b bc)
  case Nil
  then show ?case by simp
next
  case (Cons c rest)
  show ?case
  proof (cases "\<exists>i\<in>set c. \<not> in_range (length challbs) i")
    case True
    then show ?thesis by (simp add: combo_loop_fault)
  next
    case False
    with Cons.prems have "\<exists>combo\<in>set rest. \<exists>i\<in>set combo. \<not> in_range (length challbs) i"
      by auto
    from Cons.IH [OF this] show ?thesis
      using combo_loop_cases [of challbs cc mc c 0] by (auto split: sum.splits)
  qed
qed

lemma find_smart_path_IndexError_iff:
  "(find_smart_path challbs preferences combos = Inl IndexError)
     = (\<exists>combo\<in>set combos. \<exists>i\<in>set combo. \<not> in_range (length challbs) i)"
proof (cases "\<exists>combo\<in>set combos. \<exists>i\<in>set combo. \<not> in_range (length challbs) i")
  case True
  then show ?thesis
    by (simp add: find_smart_path_def best_loop_fault split: prod.splits)
next
  case False
  then have "\<forall>combo\<in>set combos. \<forall>i\<in>set combo. in_range (length challbs) i" by simp
  from find_smart_path_in_range [OF this, of preferences] False show ?thesis
    by (simp split: option.splits if_splits)
qed

text \<open>
  Claim C10. \<open>_find_smart_path\<close> indexes the offered sequence with every index of every
  combination, unchecked: it ends with \<open>IndexError\<close> exactly when some index of some
  combination lies outside the offered sequence. So it yields a path or its own
  \<open>AuthorizationError\<close> only if every index is less than the number of offered
  challenges, and an index at or beyond that number is a fault, not a poisoned or
  rejected combination.
\<close>

theorem find_smart_path_IndexError:
  "((find_smart_path challbs preferences combos = Inl IndexError)
      = (\<exists>combo\<in>set combos. \<exists>i\<in>set combo. \<not> in_range (length challbs) i))
   \<and> ((\<exists>combo\<in>set combos. \<exists>i\<in>set combo. int (length challbs) \<le> i)
        \<longrightarrow> find_smart_path challbs preferences combos = Inl IndexError)
   \<and> (find_smart_path challbs preferences combos \<noteq> Inl IndexError
        \<longrightarrow> (\<forall>combo\<in>set combos. \<forall>i\<in>set combo. i < int (length challbs)))"
proof (intro conjI impI)
  show "(find_smart_path challbs preferences combos = Inl IndexError)
      = (\<exists>combo\<in>set combos. \<exists>i\<in>set combo. \<not> in_range (length challbs) i)"
    by (rule find_smart_path_IndexError_iff)
next
  assume "\<exists>combo\<in>set combos. \<exists>i\<in>set combo. int (length challbs) \<le> i"
  then obtain combo i where ci: "combo \<in> set combos" "i \<in> set combo" "int (length challbs) \<le> i"
    by blast
  from ci(3) have "\<not> in_range (length challbs) i" by (simp add: in_range_def)
  with ci(1,2) show "find_smart_path challbs preferences combos = Inl IndexError"
    unfolding find_smart_path_IndexError_iff by blast
next
  assume n: "find_smart_path challbs preferences combos \<noteq> Inl IndexError"
  show "\<forall>combo\<in>set combos. \<forall>i\<in>set combo. i < int (length challbs)"
  proof (intro ballI)
    fix combo i
    assume "combo \<in> set combos" "i \<in> set combo"
    with n have "in_range (length challbs) i"
      unfolding find_smart_path_IndexError_iff by blast
    then show "i < int (length challbs)" by (simp add: in_range_def)
  qed
qed

theorem find_smart_path_IndexError_witness:
  "(\<exists>combo\<in>set [[0, 1]]. \<exists>i\<in>set combo. \<not> in_range (length [mk_challb DNS]) i)
   \<and> find_smart_path [mk_challb DNS] [Leaf DNS] [[0, 1]] = Inl IndexError"
  using find_smart_path_IndexError [of "[mk_challb DNS]" "[Leaf DNS]" "[[0, 1]]"]
  by (simp add: in_range_def)

lemma group_loop_eq:
  "group_loop o1 o2 d g p1 p2 =
     (g \<noteq> [] \<and> (p1 \<or> in_group o1 g) \<and> (p2 \<or> in_group o2 g) \<and> (\<not> d \<or> \<not> isinstance o1 (Leaf o2)))"
  by (induction g arbitrary: p1 p2) (auto simp: in_group_def Let_def)

lemma mutually_exclusive_eq:
  "mutually_exclusive a b groups True = (\<not> spec_mutually_exclusive groups a b)"
  by (induction groups) (auto simp: group_loop_eq spec_mutually_exclusive_def in_group_def)

lemma is_preferred_eq:
  "is_preferred cb sat groups =
     (\<forall>y\<in>set sat. \<not> spec_mutually_exclusive groups (chall cb) (chall y))"
  by (induction sat) (auto simp: mutually_exclusive_eq)

lemma spec_mutually_exclusive_sym:
  "spec_mutually_exclusive groups a b = spec_mutually_exclusive groups b a"
  by (auto simp: spec_mutually_exclusive_def)

lemma spec_mutually_exclusive_refl: "\<not> spec_mutually_exclusive groups a a"
  by (simp add: spec_mutually_exclusive_def)

lemma dumb_inner_inv:
  "dumb_inv groups challbs acc \<Longrightarrow>
   \<forall>(i, cb)\<in>set es. i < length challbs \<and> challbs ! i = cb \<Longrightarrow>
   dumb_inv groups challbs (dumb_inner groups pref_c es acc)"
proof (induction es arbitrary: acc)
  case Nil
  then show ?case by simp
next
  case (Cons e es)
  obtain i cb where e: "e = (i, cb)" by (cases e)
  obtain path sat where acc: "acc = (path, sat)" by (cases acc)
  have es: "\<forall>(i, cb)\<in>set es. i < length challbs \<and> challbs ! i = cb" using Cons.prems(2) by simp
  have icb: "i < length challbs" "challbs ! i = cb" using Cons.prems(2) e by auto
  show ?case
  proof (cases "isinstance (cls (chall cb)) pref_c \<and> is_preferred cb sat groups")
    case True
    then have pref: "\<forall>y\<in>set sat. \<not> spec_mutually_exclusive groups (chall cb) (chall y)"
      by (simp add: is_preferred_eq)
    then have pref': "\<forall>y\<in>set sat. \<not> spec_mutually_exclusive groups (chall y) (chall cb)"
      using spec_mutually_exclusive_sym by blast
    have "dumb_inv groups challbs (path @ [i], List.insert cb sat)"
      using Cons.prems(1) icb pref pref'
      by (auto simp: dumb_inv_def acc spec_mutually_exclusive_refl)
    from Cons.IH [OF this es] show ?thesis using True by (simp add: e acc)
  next
    case False
    from Cons.IH [OF Cons.prems(1) es] show ?thesis using False by (auto simp: e acc)
  qed
qed

lemma enumerate_nth:
  "\<forall>(i, cb)\<in>set (enumerate 0 challbs). i < length challbs \<and> challbs ! i = cb"
  by (auto simp: in_set_enumerate_eq)

lemma dumb_outer_inv:
  "dumb_inv groups challbs acc \<Longrightarrow> dumb_inv groups challbs (dumb_outer groups challbs prefs acc)"
  by (induction prefs arbitrary: acc) (simp_all add: dumb_inner_inv enumerate_nth)

text \<open>
  Claim C5. With a duplicate-free preference list and no combinations (absent or empty),
  \<open>gen_challenge_path\<close> takes the dumb path and returns indices into the offered
  sequence such that no two selected challenges are mutually exclusive: no two of them
  belong to a common exclusive group while being of different variants.
\<close>

theorem dumb_path_not_exclusive:
  assumes "distinct preferences" and "combos = None \<or> combos = Some []"
  shows "\<exists>path. gen_challenge_path groups challbs preferences combos = Inr path
           \<and> (\<forall>i\<in>set path. 0 \<le> i \<and> i < int (length challbs))
           \<and> (\<forall>i\<in>set path. \<forall>j\<in>set path.
                 \<not> spec_mutually_exclusive groups
                      (chall (challbs ! nat i)) (chall (challbs ! nat j)))"
proof -
  let ?acc = "dumb_outer groups challbs preferences ([], [])"
  have inv: "dumb_inv groups challbs ?acc"
    by (rule dumb_outer_inv) (simp add: dumb_inv_def)
  have g: "gen_challenge_path groups challbs preferences combos = Inr (map int (fst ?acc))"
    using assms by (auto simp: gen_challenge_path_def find_dumb_path_def distinct_remdups_id)
  show ?thesis
    unfolding g using inv by (auto simp: dumb_inv_def)
qed


theorem dumb_path_not_exclusive_witness:
  "distinct [Leaf SimpleHTTP, Leaf DVSNI, Leaf DNS] \<and> (None = None \<or> None = Some ([] :: int list list))
   \<and> gen_challenge_path [[Leaf DVSNI, Leaf SimpleHTTP]]
         [mk_challb DVSNI, mk_challb SimpleHTTP, mk_challb DNS]
         [Leaf SimpleHTTP, Leaf DVSNI, Leaf DNS] None = Inr [1, 2]
   \<and> spec_mutually_exclusive [[Leaf DVSNI, Leaf SimpleHTTP]]
         (chall (mk_challb DVSNI)) (chall (mk_challb SimpleHTTP))
   \<and> \<not> spec_mutually_exclusive [[Leaf DVSNI, Leaf SimpleHTTP]]
         (chall ([mk_challb DVSNI, mk_challb SimpleHTTP, mk_challb DNS] ! nat 1))
         (chall ([mk_challb DVSNI, mk_challb SimpleHTTP, mk_challb DNS] ! nat 2))"
  using dumb_path_not_exclusive [of "[Leaf SimpleHTTP, Leaf DVSNI, Leaf DNS]" None
          "[[Leaf DVSNI, Leaf SimpleHTTP]]" "[mk_challb DVSNI, mk_challb SimpleHTTP, mk_challb DNS]"]
  by (simp add: gen_challenge_path_def find_dumb_path_def enumerate_eq_zip upt_rec
        spec_mutually_exclusive_def in_group_def mk_challb_def)

section \<open>Properties of the authorization handler\<close>

lemma verify_loop_eq:
  "verify_loop as =
     (if \<forall>a\<in>set as. az_status (body a) = STATUS_VALID \<or> az_status (body a) = STATUS_INVALID
      then Inr () else Inl (AuthorizationError incomplete_msg))"
  by (induction as) auto

text \<open>
  Claim C3, as the code has it. \<open>verify_authzr_complete\<close> returns normally if and only
  if every authorization in the handler's map has status valid or invalid; otherwise it
  raises \<open>AuthorizationError("Incomplete authorizations")\<close>.
\<close>

theorem verify_authzr_complete_iff:
  "verify_authzr_complete h =
     (if \<forall>a\<in>set (map snd (authzr h)).
           az_status (body a) = STATUS_VALID \<or> az_status (body a) = STATUS_INVALID
      then Inr () else Inl (AuthorizationError incomplete_msg))"
  unfolding verify_authzr_complete_def by (rule verify_loop_eq)

theorem verify_authzr_complete_iff_witness:
  "verify_authzr_complete
     ((init_handler acct0 ())\<lparr>authzr :=
        [(''a.test'', mk_authzr ''a.test'' [] None STATUS_VALID),
         (''b.test'', mk_authzr ''b.test'' [] None STATUS_INVALID)]\<rparr>) = Inr ()
   \<and> verify_authzr_complete
     ((init_handler acct0 ())\<lparr>authzr :=
        [(''a.test'', mk_authzr ''a.test'' [] None STATUS_VALID),
         (''b.test'', mk_authzr ''b.test'' [] None STATUS_PENDING)]\<rparr>)
       = Inl (AuthorizationError incomplete_msg)"
  by (simp add: verify_authzr_complete_iff init_handler_def mk_authzr_def)

text \<open>
  Revoked is a terminal status of the specification, but the test of
  \<open>verify_authzr_complete\<close> names valid and invalid only: a revoked authorization makes
  it raise.
\<close>

theorem verify_authzr_complete_counterexample:
  "terminal_status (az_status (body (mk_authzr ''a.test'' [] None STATUS_REVOKED)))
   \<and> verify_authzr_complete
       ((init_handler acct0 ())\<lparr>authzr :=
          [(''a.test'', mk_authzr ''a.test'' [] None STATUS_REVOKED)]\<rparr>)
       = Inl (AuthorizationError incomplete_msg)"
  by (simp add: terminal_status_def verify_authzr_complete_def init_handler_def mk_authzr_def)

lemma update_keys_present:
  "map_of al k = Some v \<Longrightarrow> map fst (AList.update k v' al) = map fst al"
  by (auto simp: update_keys dest!: map_of_SomeD intro: rev_image_eqI)

lemma handle_check_frame:
  "handle_check env d achalls h = (r, h') \<Longrightarrow>
     sleep_log h' = sleep_log h \<and> dv_c h' = dv_c h \<and> cont_c h' = cont_c h
     \<and> account h' = account h \<and> map fst (authzr h') = map fst (authzr h)"
  by (auto simp: handle_check_def py_getitem_def update_keys_present
           split: option.splits sum.splits prod.splits if_splits)

lemma poll_domains_frame:
  "poll_domains env be ds cu cds h = (r, h') \<Longrightarrow>
     sleep_log h' = sleep_log h \<and> dv_c h' = dv_c h \<and> cont_c h' = cont_c h
     \<and> account h' = account h \<and> map fst (authzr h') = map fst (authzr h)"
proof (induction ds arbitrary: cu cds h be)
  case Nil
  then show ?case by simp
next
  case (Cons d ds)
  show ?case
  proof (cases "py_getitem cu d")
    case (Inl e)
    with Cons.prems show ?thesis by simp
  next
    case (Inr achalls)
    obtain r1 h1 where hc: "handle_check env d achalls h = (r1, h1)"
      by (cases "handle_check env d achalls h")
    note f = handle_check_frame [OF hc]
    show ?thesis
    proof (cases r1)
      case (Inl e)
      with Cons.prems Inr hc f show ?thesis by simp
    next
      case r: (Inr cf)
      obtain comp_challs failed_challs where cf: "cf = (comp_challs, failed_challs)" by (cases cf)
      from Cons.prems Inr hc r cf f show ?thesis
        by (auto split: if_splits prod.splits sum.splits dest!: Cons.IH)
    qed
  qed
qed

declare poll_loop.simps [simp del]

declare remove_iterating.simps [simp del]

lemma poll_loop_sleeps:
  "\<exists>k. int k \<le> max 0 (max_rounds - rounds)
       \<and> sleep_log (snd (poll_loop env be min_sleep max_rounds cu dtc rounds h))
           = sleep_log h @ replicate k min_sleep"
proof (induction env be min_sleep max_rounds cu dtc rounds h rule: poll_loop.induct)
  case (1 env be min_sleep max_rounds cu dtc rounds h)
  show ?case
  proof (cases "dtc \<noteq> [] \<and> rounds < max_rounds")
    case False
    then have "poll_loop env be min_sleep max_rounds cu dtc rounds h = (Inr (), h)"
      by (subst poll_loop.simps) auto
    then show ?thesis by (intro exI [of _ 0]) simp
  next
    case True
    let ?h0 = "h\<lparr>sleep_log := sleep_log h @ [min_sleep]\<rparr>"
    obtain r1 h1 where pd: "poll_domains env be dtc cu [] ?h0 = (r1, h1)"
      by (cases "poll_domains env be dtc cu [] ?h0")
    from poll_domains_frame [OF pd] have sl: "sleep_log h1 = sleep_log h @ [min_sleep]" by simp
    show ?thesis
    proof (cases r1)
      case (Inl e)
      then have "poll_loop env be min_sleep max_rounds cu dtc rounds h = (Inl e, h1)"
        using True pd by (subst poll_loop.simps) simp
      with sl True show ?thesis by (intro exI [of _ 1]) simp
    next
      case (Inr p)
      obtain cu2 cds where p: "p = (cu2, cds)" by (cases p)
      have eq: "poll_loop env be min_sleep max_rounds cu dtc rounds h
            = poll_loop env be min_sleep max_rounds cu2 [d \<leftarrow> dtc. d \<notin> set cds] (rounds + 1) h1"
        using True pd Inr p by (subst poll_loop.simps) simp
      from "1.IH" [OF True pd [symmetric] Inr p [symmetric]]
      obtain k where k: "int k \<le> max 0 (max_rounds - (rounds + 1))"
        "sleep_log (snd (poll_loop env be min_sleep max_rounds cu2
                           [d \<leftarrow> dtc. d \<notin> set cds] (rounds + 1) h1))
           = sleep_log h1 @ replicate k min_sleep"
        by blast
      show ?thesis
        unfolding eq using k True sl
        by (intro exI [of _ "Suc k"]) (simp add: replicate_append_same)
    qed
  qed
qed

text \<open>
  Claim C7. \<open>_poll_challenges\<close> is a total function: whatever the server reports, it
  returns or raises after at most \<open>max_rounds\<close> rounds, each of which starts with one
  \<open>time.sleep(min_sleep)\<close>. The defaults are \<open>min_sleep = 3\<close> and
  \<open>max_rounds = 15\<close>.
\<close>

theorem poll_challenges_terminates:
  "(\<exists>k. k \<le> nat max_rounds
        \<and> sleep_log (snd (poll_challenges env cu best_effort min_sleep max_rounds h))
            = sleep_log h @ replicate k min_sleep)
   \<and> default_min_sleep = 3 \<and> default_max_rounds = 15"
proof -
  from poll_loop_sleeps [of max_rounds 0 env best_effort min_sleep cu "map fst cu" h]
  obtain k where "int k \<le> max 0 (max_rounds - 0)"
    "sleep_log (snd (poll_loop env best_effort min_sleep max_rounds cu (map fst cu) 0 h))
       = sleep_log h @ replicate k min_sleep"
    by blast
  then show ?thesis
    by (auto simp: poll_challenges_def default_min_sleep_def default_max_rounds_def
             intro!: exI [of _ k])
qed

lemma cleanup_dv_world:
  "cleanup_call (dv_cleanup env) (dv_c h) (world h) = (Inr (), w2) \<Longrightarrow>
   \<exists>h2. cleanup_dv env True (dv_c h) h = (Inr (), h2) \<and> world h2 = w2
        \<and> cont_c h2 = cont_c h \<and> authzr h2 = authzr h"
  by (auto simp: cleanup_dv_def cleanup_call_def split: if_splits)

lemma cleanup_cont_world:
  "cleanup_call (cont_cleanup env) (cont_c h) (world h) = (Inr (), w3) \<Longrightarrow>
   \<exists>h3. cleanup_cont env True (cont_c h) h = (Inr (), h3) \<and> world h3 = w3
        \<and> authzr h3 = authzr h"
  by (auto simp: cleanup_cont_def cleanup_call_def split: if_splits)

lemma perform_challenges_frame:
  "perform_challenges env h = (r, h1) \<Longrightarrow>
     dv_c h1 = dv_c h \<and> cont_c h1 = cont_c h \<and> authzr h1 = authzr h
     \<and> sleep_log h1 = sleep_log h \<and> account h1 = account h"
  by (auto simp: perform_challenges_def split: prod.splits sum.splits if_splits)

text \<open>
  Claim C2, as the code has it. If a \<open>perform\<close> call raises \<open>AuthorizationError\<close>
  inside \<open>_solve_challenges\<close>, the handler calls \<open>dv_auth.cleanup\<close> with all of
  \<open>dv_c\<close> and then \<open>cont_auth.cleanup\<close> with all of \<open>cont_c\<close> (each only when the
  list is not empty) and, when neither cleanup raises, rethrows the same exception. An
  exception of any other class propagates at once, without cleanup.
\<close>

theorem solve_challenges_cleanup:
  "(perform_challenges env h = (Inl (AuthorizationError m), h1)
      \<and> cleanup_call (dv_cleanup env) (dv_c h) (world h1) = (Inr (), w2)
      \<and> cleanup_call (cont_cleanup env) (cont_c h) w2 = (Inr (), w3)
    \<longrightarrow> fst (solve_challenges env h) = Inl (AuthorizationError m)
        \<and> world (snd (solve_challenges env h)) = w3)
   \<and> (perform_challenges env h = (Inl e, h1) \<and> \<not> is_AuthorizationError e
    \<longrightarrow> solve_challenges env h = (Inl e, h1))"
proof (intro conjI impI)
  assume a: "perform_challenges env h = (Inl (AuthorizationError m), h1)
      \<and> cleanup_call (dv_cleanup env) (dv_c h) (world h1) = (Inr (), w2)
      \<and> cleanup_call (cont_cleanup env) (cont_c h) w2 = (Inr (), w3)"
  then have p: "perform_challenges env h = (Inl (AuthorizationError m), h1)" by simp
  note f = perform_challenges_frame [OF p]
  from a f have "cleanup_call (dv_cleanup env) (dv_c h1) (world h1) = (Inr (), w2)" by simp
  from cleanup_dv_world [OF this] obtain h2 where
    h2: "cleanup_dv env True (dv_c h1) h1 = (Inr (), h2)" "world h2 = w2" "cont_c h2 = cont_c h1"
    by blast
  from a f h2 have "cleanup_call (cont_cleanup env) (cont_c h2) (world h2) = (Inr (), w3)" by simp
  from cleanup_cont_world [OF this] obtain h3 where
    h3: "cleanup_cont env True (cont_c h2) h2 = (Inr (), h3)" "world h3 = w3"
    by blast
  from h3(1) h2(3) have h3': "cleanup_cont env True (cont_c h1) h2 = (Inr (), h3)" by simp
  have s: "solve_challenges env h = (Inl (AuthorizationError m), h3)"
    by (simp add: solve_challenges_def p cleanup_challenges_def h2 h3')
  show "fst (solve_challenges env h) = Inl (AuthorizationError m)" by (simp add: s)
  show "world (snd (solve_challenges env h)) = w3" by (simp add: s h3)
next
  assume "perform_challenges env h = (Inl e, h1) \<and> \<not> is_AuthorizationError e"
  then show "solve_challenges env h = (Inl e, h1)" by (simp add: solve_challenges_def)
qed

theorem solve_challenges_cleanup_witness:
  "perform_challenges (sample_env (\<lambda>d. mk_authzr d [] None STATUS_PENDING) id
       (\<lambda>acs. Inl (AuthorizationError ''no port''))) two_dv
     = (Inl (AuthorizationError ''no port''), two_dv\<lparr>world := [''dv_perform'']\<rparr>)
   \<and> fst (solve_challenges (sample_env (\<lambda>d. mk_authzr d [] None STATUS_PENDING) id
       (\<lambda>acs. Inl (AuthorizationError ''no port''))) two_dv) = Inl (AuthorizationError ''no port'')
   \<and> world (snd (solve_challenges (sample_env (\<lambda>d. mk_authzr d [] None STATUS_PENDING) id
       (\<lambda>acs. Inl (AuthorizationError ''no port''))) two_dv)) = [''dv_perform'', ''dv_cleanup'']
   \<and> solve_challenges (sample_env (\<lambda>d. mk_authzr d [] None STATUS_PENDING) id
       (\<lambda>acs. Inl (OtherError ''boom''))) two_dv
     = (Inl (OtherError ''boom''), two_dv\<lparr>world := [''dv_perform'']\<rparr>)"
proof -
  let ?env = "sample_env (\<lambda>d. mk_authzr d [] None STATUS_PENDING) id
       (\<lambda>acs. Inl (AuthorizationError ''no port''))"
  let ?env2 = "sample_env (\<lambda>d. mk_authzr d [] None STATUS_PENDING) id
       (\<lambda>acs. Inl (OtherError ''boom''))"
  have p: "perform_challenges ?env two_dv
     = (Inl (AuthorizationError ''no port''), two_dv\<lparr>world := [''dv_perform'']\<rparr>)"
    by (simp add: perform_challenges_def sample_env_def two_dv_def init_handler_def)
  have c1: "cleanup_call (dv_cleanup ?env) (dv_c two_dv) (world (two_dv\<lparr>world := [''dv_perform'']\<rparr>))
      = (Inr (), [''dv_perform'', ''dv_cleanup''])"
    by (simp add: cleanup_call_def sample_env_def two_dv_def init_handler_def)
  have c2: "cleanup_call (cont_cleanup ?env) (cont_c two_dv) [''dv_perform'', ''dv_cleanup'']
      = (Inr (), [''dv_perform'', ''dv_cleanup''])"
    by (simp add: cleanup_call_def sample_env_def two_dv_def init_handler_def)
  have p2: "perform_challenges ?env2 two_dv
     = (Inl (OtherError ''boom''), two_dv\<lparr>world := [''dv_perform'']\<rparr>)"
    by (simp add: perform_challenges_def sample_env_def two_dv_def init_handler_def)
  from solve_challenges_cleanup [of ?env two_dv "''no port''" "two_dv\<lparr>world := [''dv_perform'']\<rparr>"
      "[''dv_perform'', ''dv_cleanup'']" "[''dv_perform'', ''dv_cleanup'']"] p c1 c2
  have a: "fst (solve_challenges ?env two_dv) = Inl (AuthorizationError ''no port'')
     \<and> world (snd (solve_challenges ?env two_dv)) = [''dv_perform'', ''dv_cleanup'']"
    by blast
  from solve_challenges_cleanup [of ?env2 two_dv "''no port''" "two_dv\<lparr>world := [''dv_perform'']\<rparr>"
      "[]" "[]" "OtherError ''boom''"] p2
  have b: "solve_challenges ?env2 two_dv = (Inl (OtherError ''boom''), two_dv\<lparr>world := [''dv_perform'']\<rparr>)"
    by simp
  from p a b show ?thesis by simp
qed

text \<open>
  The claim as stated fails twice. An exception that is not an \<open>AuthorizationError\<close>
  passes the \<open>except\<close> clause: nothing is cleaned up and both challenges stay in
  \<open>dv_c\<close>. And after an \<open>AuthorizationError\<close> the cleanup removes from \<open>self.dv_c\<close>
  while iterating over it, which skips every other element: of two challenges the second
  remains.
\<close>

theorem solve_challenges_counterexample:
  "solve_challenges (sample_env (\<lambda>d. mk_authzr d [] None STATUS_PENDING) id
       (\<lambda>acs. Inl (OtherError ''boom''))) two_dv
     = (Inl (OtherError ''boom''), two_dv\<lparr>world := [''dv_perform'']\<rparr>)
   \<and> dv_c (two_dv\<lparr>world := [''dv_perform'']\<rparr>) = [mk_achall SimpleHTTP ''a.test'', mk_achall DNS ''a.test'']
   \<and> fst (solve_challenges (sample_env (\<lambda>d. mk_authzr d [] None STATUS_PENDING) id
       (\<lambda>acs. Inl (AuthorizationError ''no port''))) two_dv) = Inl (AuthorizationError ''no port'')
   \<and> dv_c (snd (solve_challenges (sample_env (\<lambda>d. mk_authzr d [] None STATUS_PENDING) id
       (\<lambda>acs. Inl (AuthorizationError ''no port''))) two_dv)) = [mk_achall DNS ''a.test'']"
  by (simp add: solve_challenges_def perform_challenges_def cleanup_challenges_def
        cleanup_dv_def cleanup_cont_def sample_env_def two_dv_def init_handler_def
        remove_iterating.simps mk_achall_def mk_challb_def)

lemma choose_challenges_authzr:
  "choose_challenges env ds h = (r, h') \<Longrightarrow> authzr h' = authzr h"
proof (induction ds arbitrary: h)
  case Nil
  then show ?case by simp
next
  case (Cons d ds)
  then show ?case
    by (auto split: sum.splits prod.splits dest!: Cons.IH)
qed

lemma cleanup_dv_authzr:
  "cleanup_dv env al dv h = (r, h') \<Longrightarrow> authzr h' = authzr h"
  by (auto simp: cleanup_dv_def split: if_splits prod.splits sum.splits)

lemma cleanup_cont_authzr:
  "cleanup_cont env al ct h = (r, h') \<Longrightarrow> authzr h' = authzr h"
  by (auto simp: cleanup_cont_def split: if_splits prod.splits sum.splits)

lemma cleanup_challenges_authzr:
  "cleanup_challenges env al h = (r, h') \<Longrightarrow> authzr h' = authzr h"
  by (auto simp: cleanup_challenges_def split: option.splits prod.splits sum.splits
           dest!: cleanup_dv_authzr cleanup_cont_authzr)

lemma solve_challenges_authzr:
  "solve_challenges env h = (r, h') \<Longrightarrow> authzr h' = authzr h"
  by (auto simp: solve_challenges_def split: prod.splits sum.splits if_splits
           dest!: perform_challenges_frame cleanup_challenges_authzr)

lemma send_responses_authzr:
  "send_responses env acs rs acc h = (r, h') \<Longrightarrow> authzr h' = authzr h"
proof (induction env acs rs acc h rule: send_responses.induct)
  case (1 env a achalls resp resps cu active h)
  then show ?case
    by (auto split: option.splits prod.splits sum.splits)
qed simp_all

lemma poll_loop_keys:
  "poll_loop env be ms mr cu dtc rounds h = (r, h') \<Longrightarrow>
   map fst (authzr h') = map fst (authzr h)"
proof (induction env be ms mr cu dtc rounds h rule: poll_loop.induct)
  case (1 env be ms mr cu dtc rounds h)
  show ?case
  proof (cases "dtc \<noteq> [] \<and> rounds < mr")
    case False
    with "1.prems" show ?thesis by (subst (asm) poll_loop.simps) auto
  next
    case True
    let ?h0 = "h\<lparr>sleep_log := sleep_log h @ [ms]\<rparr>"
    obtain r1 h1 where pd: "poll_domains env be dtc cu [] ?h0 = (r1, h1)"
      by (cases "poll_domains env be dtc cu [] ?h0")
    from poll_domains_frame [OF pd] have k: "map fst (authzr h1) = map fst (authzr h)" by simp
    show ?thesis
    proof (cases r1)
      case (Inl e)
      with "1.prems" True pd k show ?thesis by (subst (asm) poll_loop.simps) auto
    next
      case (Inr p)
      obtain cu2 cds where p: "p = (cu2, cds)" by (cases p)
      from "1.prems" True pd Inr p
      have "poll_loop env be ms mr cu2 [d \<leftarrow> dtc. d \<notin> set cds] (rounds + 1) h1 = (r, h')"
        by (subst (asm) poll_loop.simps) simp
      from "1.IH" [OF True pd [symmetric] Inr p [symmetric] this] k show ?thesis by simp
    qed
  qed
qed

lemma respond_keys:
  "respond env cr dr be h = (r, h') \<Longrightarrow> map fst (authzr h') = map fst (authzr h)"
  by (auto simp: respond_def poll_challenges_def split: prod.splits sum.splits
           dest!: send_responses_authzr cleanup_challenges_authzr poll_loop_keys)

lemma challenge_loop_keys:
  "challenge_loop fuel env be h = Some (r, h') \<Longrightarrow> map fst (authzr h') = map fst (authzr h)"
proof (induction fuel arbitrary: h)
  case 0
  then show ?case by simp
next
  case (Suc n)
  then show ?case
    by (auto split: if_splits prod.splits sum.splits
             dest!: solve_challenges_authzr respond_keys Suc.IH)
qed

lemma request_loop_keys:
  "request_loop env ds h = (Inr (), h1) \<Longrightarrow>
     set (map fst (authzr h1)) = set (map fst (authzr h)) \<union> set ds
     \<and> (distinct (map fst (authzr h)) \<longrightarrow> distinct (map fst (authzr h1)))"
proof (induction ds arbitrary: h)
  case Nil
  then show ?case by simp
next
  case (Cons d ds)
  obtain r0 w where rq:
    "request_domain_challenges env d (new_authzr_uri (account h)) (world h) = (r0, w)"
    by (cases "request_domain_challenges env d (new_authzr_uri (account h)) (world h)")
  show ?case
  proof (cases r0)
    case (Inl e)
    with Cons.prems rq show ?thesis by simp
  next
    case (Inr a)
    let ?h = "h\<lparr>authzr := AList.update d a (authzr h), world := w\<rparr>"
    from Cons.prems rq Inr have "request_loop env ds ?h = (Inr (), h1)" by simp
    from Cons.IH [OF this]
    have "set (map fst (authzr h1)) = set (map fst (AList.update d a (authzr h))) \<union> set ds"
      and "distinct (map fst (AList.update d a (authzr h))) \<longrightarrow> distinct (map fst (authzr h1))"
      by simp_all
    then show ?thesis
      by (auto simp: dom_update distinct_update)
  qed
qed

text \<open>
  Claim C6, as the code has it. The handler's map is created empty by \<open>__init__\<close> and
  \<open>get_authorizations\<close> only ever adds to it. Once the request loop of a call has
  completed, the key set of \<open>authzr\<close> is the key set before the call together with the
  domains passed to the call, and it stays so until the call returns or raises; keys are
  never duplicated. On a fresh handler the key set is exactly the set of requested
  domains.
\<close>

theorem authzr_keys:
  assumes "request_loop env domains h = (Inr (), h1)"
    and "get_authorizations fuel env domains best_effort h = Some (r, h')"
  shows "set (map fst (authzr h1)) = set (map fst (authzr h)) \<union> set domains
       \<and> map fst (authzr h') = map fst (authzr h1)
       \<and> (distinct (map fst (authzr h)) \<longrightarrow> distinct (map fst (authzr h')))
       \<and> (authzr h = [] \<longrightarrow> set (map fst (authzr h')) = set domains)"
proof -
  note rk = request_loop_keys [OF assms(1)]
  have k: "map fst (authzr h') = map fst (authzr h1)"
    using assms(2) unfolding get_authorizations_def assms(1)
    by (auto split: prod.splits sum.splits option.splits
             dest!: choose_challenges_authzr challenge_loop_keys)
  from rk k show ?thesis by auto
qed

theorem authzr_keys_witness:
  "\<exists>r h'. get_authorizations 2 (sample_env offer_http (set_status STATUS_VALID) all_respond)
           [''a.test'', ''b.test''] False (init_handler acct0 []) = Some (r, h')
       \<and> set (map fst (authzr h')) = set [''a.test'', ''b.test'']
       \<and> distinct (map fst (authzr h'))"
proof -
  define env where "env = sample_env offer_http (set_status STATUS_VALID) all_respond"
  define h0 where "h0 = (init_handler acct0 [] :: string list handler)"
  define ds where "ds = [''a.test'', ''b.test'']"
  define h1 where "h1 = h0\<lparr>authzr := [(''a.test'', offer_http ''a.test''), (''b.test'', offer_http ''b.test'')],
                 world := [''request'', ''request'']\<rparr>"
  have rl: "request_loop env ds h0 = (Inr (), h1)"
    unfolding env_def h0_def ds_def h1_def by (simp add: sample_env_def init_handler_def)
  have "get_authorizations 2 env ds False h0 \<noteq> None"
    unfolding env_def h0_def ds_def by code_simp
  then obtain r h' where eq: "get_authorizations 2 env ds False h0 = Some (r, h')"
    by (cases "get_authorizations 2 env ds False h0") auto
  have e: "authzr h0 = []" "distinct (map fst (authzr h0))"
    unfolding h0_def by (simp_all add: init_handler_def)
  from authzr_keys [OF rl eq] have
    "distinct (map fst (authzr h0)) \<longrightarrow> distinct (map fst (authzr h'))"
    "authzr h0 = [] \<longrightarrow> set (map fst (authzr h')) = set ds"
    by blast+
  with e have k: "set (map fst (authzr h')) = set ds" "distinct (map fst (authzr h'))"
    by blast+
  from eq k have "\<exists>r h'. get_authorizations 2 env ds False h0 = Some (r, h')
       \<and> set (map fst (authzr h')) = set ds \<and> distinct (map fst (authzr h'))"
    by (intro exI conjI)
  then show ?thesis unfolding env_def h0_def ds_def .
qed

text \<open>
  A second call on the same handler: the map still holds the entry of the first call's
  domain, so its key set is not the set of domains passed to the second call.
\<close>

theorem authzr_keys_counterexample:
  "(case get_authorizations 2 (sample_env offer_http (set_status STATUS_VALID) all_respond)
           [''a.test''] False (init_handler acct0 []) of
      None \<Rightarrow> []
    | Some (r1, h1) \<Rightarrow>
        (case get_authorizations 2 (sample_env offer_http (set_status STATUS_VALID) all_respond)
                [''b.test''] False h1 of
           None \<Rightarrow> []
         | Some (r2, h2) \<Rightarrow> map fst (authzr h2)))
   = [''a.test'', ''b.test'']"
  by code_simp










section \<open>Properties of the client and the account store\<close>

text \<open>
  Claim C9. The \<open>csr\<close> argument of \<open>obtain_certificate\<close> has no influence: for any two
  values of it, the call makes the same requests (it leaves the same world and handler)
  and yields the same outcome, the same \<open>(cert_pem, key_pem, chain_pem)\<close> when it
  returns. The CSR that is sent is the one generated from \<open>domains\<close>.
\<close>

theorem obtain_certificate_ignores_csr:
  "obtain_certificate fuel env cenv c domains csr1
     = obtain_certificate fuel env cenv c domains csr2"
  by (simp add: obtain_certificate_def)

lemma slash_not_local: "CHR ''/'' \<notin> set local_chars"
  by (simp add: local_chars_def)

lemma slash_not_domain: "CHR ''/'' \<notin> set domain_chars"
  by (simp add: domain_chars_def)

lemma email_match_shape:
  assumes "EMAIL_REGEX_match e"
  shows "e \<noteq> [] \<and> CHR ''/'' \<notin> set e \<and> CHR ''@'' \<in> set e"
proof -
  let ?L = "\<lambda>c. c \<in> set local_chars"
  let ?D = "\<lambda>c. c \<in> set domain_chars"
  from assms obtain d where
    l: "takeWhile ?L e \<noteq> []" and dr: "dropWhile ?L e = CHR ''@'' # d"
    and t: "dropWhile ?D d = [] \<or> dropWhile ?D d = [CHR 0x0A]"
    by (auto simp: EMAIL_REGEX_match_def split: list.splits)
  obtain tl where tl: "dropWhile ?D d = tl" by simp
  with t have tl': "tl = [] \<or> tl = [CHR 0x0A]" by simp
  have e: "e = takeWhile ?L e @ CHR ''@'' # takeWhile ?D d @ tl"
    using takeWhile_dropWhile_id [of ?L e] takeWhile_dropWhile_id [of ?D d] dr tl by simp
  have a: "CHR ''/'' \<notin> set (takeWhile ?L e)"
    using slash_not_local by (auto dest: set_takeWhileD)
  have b: "CHR ''/'' \<notin> set (takeWhile ?D d)"
    using slash_not_domain by (auto dest: set_takeWhileD)
  have c: "CHR ''/'' \<notin> set tl" using tl' by auto
  from l have ne: "e \<noteq> []" by auto
  have "CHR ''/'' \<notin> set e" by (subst e) (use a b c in simp)
  moreover have "CHR ''@'' \<in> set e" by (subst e) simp
  ultimately show ?thesis using ne by simp
qed

lemma takeWhile_neq_append:
  "c \<notin> set xs \<Longrightarrow> takeWhile (\<lambda>y. y \<noteq> c) (xs @ c # ys) = xs"
  by (induction xs) auto

lemma basename_slash:
  "CHR ''/'' \<notin> set b \<Longrightarrow> basename (a @ CHR ''/'' # b) = b"
  using takeWhile_neq_append [of "CHR ''/''" "rev b" "rev a"] by (simp add: basename_def)

lemma basename_plain:
  "CHR ''/'' \<notin> set b \<Longrightarrow> basename b = b"
proof -
  assume "CHR ''/'' \<notin> set b"
  then have "takeWhile (\<lambda>c. c \<noteq> CHR ''/'') (rev b) = rev b"
    by (auto simp: takeWhile_eq_all_conv)
  then show ?thesis by (simp only: basename_def rev_rev_ident)
qed

lemma basename_path_join:
  assumes "CHR ''/'' \<notin> set b" "b \<noteq> []"
  shows "basename (path_join a b) = b"
proof -
  from assms have hd: "hd b \<noteq> CHR ''/''" by (cases b) auto
  show ?thesis
  proof (cases "a = []")
    case True
    with hd assms show ?thesis by (simp add: path_join_def basename_plain)
  next
    case False
    show ?thesis
    proof (cases "last a = CHR ''/''")
      case True
      with False obtain a' where a': "a = a' @ [CHR ''/'']" by (metis append_butlast_last_id)
      from hd assms have "path_join a b = a' @ CHR ''/'' # b" by (simp add: path_join_def a')
      with assms show ?thesis by (simp add: basename_slash)
    next
      case l: False
      with False hd assms show ?thesis by (simp add: path_join_def basename_slash)
    qed
  qed
qed

lemma safe_email_filename:
  assumes "safe_email e"
  shows "basename (path_join d (get_config_filename (Some e))) = e \<and> e \<noteq> ''default''"
proof -
  from assms have "EMAIL_REGEX_match e" by (simp add: safe_email_def split: if_splits)
  from email_match_shape [OF this] have s: "e \<noteq> []" "CHR ''/'' \<notin> set e" "CHR ''@'' \<in> set e"
    by simp_all
  from s(3) have "e \<noteq> ''default''" by auto
  with s show ?thesis by (simp add: get_config_filename_def basename_path_join)
qed

text \<open>
  Claim C8, as the code has it. For an account with a safe email, a phone other than the
  literal string \<open>None\<close>, a registration resource whose terms of service are present
  and whose body survives being written to and read from the account file, and a key
  whose file holds its PEM text: \<open>save\<close> followed by \<open>from_existing_account\<close> with
  the same email yields an account with the same key, email, phone and registration
  resource. A phone stored as the literal string \<open>None\<close> is read as an absent phone.
\<close>

theorem account_roundtrip:
  assumes "safe_email e" and "p \<noteq> ''None''"
    and "text_files fs (key_file k) = Some (key_pem k)"
    and "from_json cd (to_json cd b) = Inr b"
  shows "from_existing_account cd accounts_dir (Some e)
           (save cd accounts_dir
              \<lparr>key = k, email = Some e, phone = Some p,
               regr = Some \<lparr>rr_body = b, rr_uri = u, rr_new_authzr_uri = n,
                            rr_terms_of_service = Some t\<rparr>\<rparr> fs)
         = Inr \<lparr>key = k, email = Some e, phone = Some p,
                regr = Some \<lparr>rr_body = b, rr_uri = u, rr_new_authzr_uri = n,
                             rr_terms_of_service = Some t\<rparr>\<rparr>
       \<and> (\<forall>fp cfg a. config_files fs fp = Some cfg \<and> cfg_phone cfg = ''None''
              \<and> from_config_fp cd fp fs = Inr a \<longrightarrow> phone a = None)"
proof (intro conjI allI impI)
  note f = safe_email_filename [OF assms(1), of accounts_dir]
  show "from_existing_account cd accounts_dir (Some e)
           (save cd accounts_dir
              \<lparr>key = k, email = Some e, phone = Some p,
               regr = Some \<lparr>rr_body = b, rr_uri = u, rr_new_authzr_uri = n,
                            rr_terms_of_service = Some t\<rparr>\<rparr> fs)
         = Inr \<lparr>key = k, email = Some e, phone = Some p,
                regr = Some \<lparr>rr_body = b, rr_uri = u, rr_new_authzr_uri = n,
                             rr_terms_of_service = Some t\<rparr>\<rparr>"
    using assms f
    by (simp add: from_existing_account_def from_config_fp_def save_def py_str_def
          account_init_def)
next
  fix fp cfg a
  assume "config_files fs fp = Some cfg \<and> cfg_phone cfg = ''None''
              \<and> from_config_fp cd fp fs = Inr a"
  then show "phone a = None"
    by (auto simp: from_config_fp_def account_init_def split: option.splits sum.splits)
qed

theorem account_roundtrip_witness:
  "safe_email ''a@b.com'' \<and> ''1234'' \<noteq> ''None''
   \<and> from_existing_account id_codec ''/etc/accounts'' (Some ''a@b.com'')
        (save id_codec ''/etc/accounts'' (sample_account ''1234'' sample_regr) sample_fs)
      = Inr (sample_account ''1234'' sample_regr)"
proof -
  have s: "safe_email ''a@b.com''"
    by (simp add: safe_email_def EMAIL_REGEX_match_def local_chars_def domain_chars_def)
  have k: "text_files sample_fs (key_file \<lparr>key_file = ''/keys/a@b.com'', key_pem = ''PEM''\<rparr>)
             = Some (key_pem \<lparr>key_file = ''/keys/a@b.com'', key_pem = ''PEM''\<rparr>)"
    by (simp add: sample_fs_def)
  have c: "from_json id_codec (to_json id_codec (rr_body sample_regr)) = Inr (rr_body sample_regr)"
    by (simp add: id_codec_def)
  have p: "''1234'' \<noteq> ''None''" by simp
  from account_roundtrip [OF s p k c, of "''/etc/accounts''" "rr_uri sample_regr"
      "rr_new_authzr_uri sample_regr" "''https://ca.example/tos''"]
  have "from_existing_account id_codec ''/etc/accounts'' (Some ''a@b.com'')
        (save id_codec ''/etc/accounts'' (sample_account ''1234'' sample_regr) sample_fs)
      = Inr (sample_account ''1234'' sample_regr)"
    by (simp add: sample_account_def sample_regr_def)
  with s p show ?thesis by simp
qed

text \<open>
  A phone that is the string \<open>None\<close> is written as \<open>None\<close> and read back as absent.
  And absent terms of service are written as \<open>None\<close> too, but read back as that
  string: the loader decodes the sentinel for the phone only.
\<close>

theorem account_roundtrip_counterexample:
  "from_existing_account id_codec ''/etc/accounts'' (Some ''a@b.com'')
        (save id_codec ''/etc/accounts'' (sample_account ''None'' sample_regr) sample_fs)
      = Inr ((sample_account ''None'' sample_regr)\<lparr>phone := None\<rparr>)
   \<and> from_existing_account id_codec ''/etc/accounts'' (Some ''a@b.com'')
        (save id_codec ''/etc/accounts''
           (sample_account ''1234'' (sample_regr\<lparr>rr_terms_of_service := None\<rparr>)) sample_fs)
      = Inr (sample_account ''1234'' (sample_regr\<lparr>rr_terms_of_service := Some ''None''\<rparr>))"
  by (simp add: from_existing_account_def from_config_fp_def save_def py_str_def
        account_init_def sample_account_def sample_regr_def sample_fs_def id_codec_def
        get_config_filename_def path_join_def basename_def
        safe_email_def EMAIL_REGEX_match_def local_chars_def domain_chars_def)


end
